theory Spec2Isabelle
  imports Complex_Main "HOL-Library.Word"
begin

unbundle bit_operations_syntax

chapter \<open>The V2X scenario script and the kernel its specification describes\<close>

text \<open>
  \<^verbatim>\<open>V2X-Main.cc\<close> is a scenario script on top of the ns-3 simulation library. The first
  part of this theory embeds the script: its two socket callbacks and the phases of
  \<^verbatim>\<open>main\<close>. Calls into ns-3 are outside the repository; each one the model needs is
  written down with the contract it is used under, and says so. The second part embeds the
  three kernel components the specification describes (EventQueue, Medium, NodeQueue),
  which have no counterpart in the script.
\<close>

section \<open>Machine integers and the counting loop\<close>

type_synonym u16 = "16 word"
type_synonym u32 = "32 word"

text \<open>
  Every counting loop of the script has the shape
  \<^verbatim>\<open>for (uint32_t i = 0; i < n; ++i) body\<close> with \<open>n\<close> a \<^verbatim>\<open>uint32_t\<close>.
  The index is a 32-bit word, so \<open>i + 1\<close> is the wrapping successor; the loop ends
  because \<open>i < n\<close> keeps \<open>i\<close> below the largest word.
\<close>

function for_u32 :: "u32 \<Rightarrow> u32 \<Rightarrow> (u32 \<Rightarrow> 's \<Rightarrow> 's) \<Rightarrow> 's \<Rightarrow> 's" where
  "for_u32 i n body s = (if i < n then for_u32 (i + 1) n body (body i s) else s)"
  by pat_completeness auto
termination
proof (relation "measure (\<lambda>(i, n, body, s). unat n - unat i)")
  show "wf (measure (\<lambda>(i, n, body, s). unat n - unat i))" by simp
next
  fix i n :: u32 and body :: "u32 \<Rightarrow> 's \<Rightarrow> 's" and s :: 's
  assume lt: "i < n"
  then have below: "unat i < unat n" by (simp add: word_less_nat_alt)
  have "unat n < 2 ^ 32" using unsigned_less [of n] by simp
  with below have "unat i + 1 < 2 ^ 32" by linarith
  then have "unat (i + 1) = unat i + 1" by (simp add: unat_word_ariths)
  with below show "((i + 1, n, body, body i s), (i, n, body, s))
      \<in> measure (\<lambda>(i, n, body, s). unat n - unat i)"
    by simp
qed

declare for_u32.simps [simp del]

text \<open>\<^verbatim>\<open>GetN()\<close> of an ns-3 container returns its size as a \<^verbatim>\<open>uint32_t\<close>.\<close>

definition GetN :: "'a list \<Rightarrow> u32" where
  "GetN xs = of_nat (length xs)"

section \<open>Addresses, nodes, sockets, packets\<close>

type_synonym Ipv4Address = u32
type_synonym Mac48Address = "48 word"

text \<open>
  A \<^verbatim>\<open>Ptr<Node>\<close>: the script creates \<open>nVehicles\<close> vehicle nodes and one RSU node
  (lines 102-105); \<open>Vehicle i\<close> is \<^verbatim>\<open>vehicles.Get(i)\<close>, \<open>Rsu\<close> is \<^verbatim>\<open>rsu.Get(0)\<close>.
\<close>

datatype node_ptr = Vehicle u32 | Rsu

text \<open>
  The object behind a non-null \<^verbatim>\<open>Ptr<Socket>\<close>: the script creates its sockets with
  \<^verbatim>\<open>Socket::CreateSocket(node, UdpSocketFactory::GetTypeId())\<close>, at most one per node.
  A \<^verbatim>\<open>Ptr<Socket>\<close> itself may be null and is a \<open>socket option\<close>.
\<close>

datatype socket = UdpSocket node_ptr

record Packet =
  GetSize :: u32

record InetSocketAddress =
  GetIpv4 :: Ipv4Address
  GetPort :: u16

text \<open>Dereferencing a null \<^verbatim>\<open>Ptr\<close>, and the fatal errors of the library calls modelled below.\<close>

datatype error = NullPointer | AssertFailed | FatalError

text \<open>
  What the callbacks do to the outside: the call \<^verbatim>\<open>socket->SendTo(packet, flags, to)\<close> and
  the lines written to \<^verbatim>\<open>std::cout\<close>, kept as data (time in seconds, then the fields printed).
\<close>

datatype effect =
    SendTo socket Packet u32 InetSocketAddress
  | PrintSent real u32 Ipv4Address u16
  | PrintReceived real u32 Ipv4Address

section \<open>The socket callbacks (lines 36-55)\<close>

text \<open>
  \<^verbatim>\<open>SendPacket\<close>: creates a packet with a 100-byte payload, sends it to \<open>(dst, port)\<close> with
  flags 0 and prints one line. \<open>now\<close> is \<^verbatim>\<open>Simulator::Now().GetSeconds()\<close>.
\<close>

definition SendPacket :: "real \<Rightarrow> socket option \<Rightarrow> Ipv4Address \<Rightarrow> u16 \<Rightarrow> u32 \<Rightarrow> error + effect list" where
  "SendPacket now sock dst port vehId =
     (let packet = \<lparr>GetSize = 100\<rparr> in
      case sock of
        None \<Rightarrow> Inl NullPointer
      | Some s \<Rightarrow> Inr [SendTo s packet 0 \<lparr>GetIpv4 = dst, GetPort = port\<rparr>,
                       PrintSent now vehId dst port])"

text \<open>
  The receiving side of a UDP socket: the packets delivered and not yet read, oldest first,
  each with its sender's address.

  \<^verbatim>\<open>Socket::RecvFrom(from)\<close> is ns-3's, not the repository's. It is used under its documented
  contract: it returns null when nothing is pending, and otherwise removes the oldest pending
  packet, returns it and stores the sender in \<open>from\<close>.
\<close>

record udp_socket =
  deliveryQueue :: "(Packet \<times> InetSocketAddress) list"

definition RecvFrom :: "udp_socket \<Rightarrow> (Packet \<times> InetSocketAddress) option \<times> udp_socket" where
  "RecvFrom s =
     (case deliveryQueue s of
        [] \<Rightarrow> (None, s)
      | x # rest \<Rightarrow> (Some x, s\<lparr>deliveryQueue := rest\<rparr>))"

text \<open>
  \<^verbatim>\<open>ReceivePacket\<close>: \<^verbatim>\<open>while ((packet = socket->RecvFrom(from))) { print }\<close>. The loop state
  is the socket and the lines printed so far; the simulation time does not move inside a
  callback.
\<close>

function ReceivePacket_loop :: "real \<Rightarrow> udp_socket \<Rightarrow> effect list \<Rightarrow> udp_socket \<times> effect list" where
  "ReceivePacket_loop now s out =
     (case RecvFrom s of
        (None, s') \<Rightarrow> (s', out)
      | (Some (packet, from), s') \<Rightarrow>
          ReceivePacket_loop now s' (out @ [PrintReceived now (GetSize packet) (GetIpv4 from)]))"
  by pat_completeness auto
termination
  by (relation "measure (\<lambda>(now, s, out). length (deliveryQueue s))")
     (auto simp: RecvFrom_def split: list.splits)

declare ReceivePacket_loop.simps [simp del]

definition ReceivePacket :: "real \<Rightarrow> udp_socket \<Rightarrow> udp_socket \<times> effect list" where
  "ReceivePacket now s = ReceivePacket_loop now s []"

section \<open>Scheduling the sends (lines 208-234)\<close>

text \<open>
  A lambda's capture list names, for every variable the body uses, whether the closure holds
  a copy made when the lambda is created (\<^verbatim>\<open>[x]\<close>, \<^verbatim>\<open>[x = e]\<close>) or a reference to the
  variable (\<^verbatim>\<open>[&x]\<close>), which is read when the body runs. \<open>captured\<close> gives the value the
  body sees, from the capture and the variable's value at the time of the call.
\<close>

datatype 'a capture = ByCopy 'a | ByReference

fun captured :: "'a capture \<Rightarrow> 'a \<Rightarrow> 'a" where
  "captured (ByCopy v) current = v"
| "captured ByReference current = current"

text \<open>
  The closure type of the two lambdas of lines 227 and 231, whose capture list is
  \<^verbatim>\<open>[sock = vehicleSockets[i], rsuAddr, port, vehId]\<close> and whose body is
  \<^verbatim>\<open>SendPacket(sock, rsuAddr, port, vehId)\<close>.
\<close>

record send_lambda =
  cap_sock :: "socket option capture"
  cap_rsuAddr :: "Ipv4Address capture"
  cap_port :: "u16 capture"
  cap_vehId :: "u32 capture"

text \<open>The variables of \<^verbatim>\<open>main\<close> that the capture list names, as they are when a lambda runs.\<close>

record main_variables =
  var_sock :: "socket option"
  var_rsuAddr :: Ipv4Address
  var_port :: u16
  var_vehId :: u32

definition call_lambda :: "main_variables \<Rightarrow> real \<Rightarrow> send_lambda \<Rightarrow> error + effect list" where
  "call_lambda vars now l =
     SendPacket now (captured (cap_sock l) (var_sock vars))
                    (captured (cap_rsuAddr l) (var_rsuAddr vars))
                    (captured (cap_port l) (var_port vars))
                    (captured (cap_vehId l) (var_vehId vars))"

text \<open>
  An event handed to \<^verbatim>\<open>Simulator::Schedule(Seconds(t), lambda)\<close>. The calls are made before
  \<^verbatim>\<open>Simulator::Run\<close>, at simulation time 0, so the delay \<open>t\<close> is the time of the event.
  The times are \<^verbatim>\<open>double\<close>s holding \<open>1 + i\<close> and \<open>2 + i\<close> for a 32-bit \<open>i\<close>: whole numbers
  below \<open>2^53\<close>, which \<^verbatim>\<open>double\<close> addition computes exactly, so they are modelled in \<open>real\<close>.
\<close>

record event =
  scheduled_at :: real
  callback :: send_lambda

text \<open>Lines 215-217: the vector of \<open>nVehicles\<close> null pointers, filled with one new socket per vehicle.\<close>

definition create_vehicleSockets :: "u32 \<Rightarrow> socket option list" where
  "create_vehicleSockets nVehicles =
     for_u32 0 nVehicles
       (\<lambda>i vehicleSockets. vehicleSockets[unat i := Some (UdpSocket (Vehicle i))])
       (replicate (unat nVehicles) None)"

definition sendStart :: real where
  "sendStart = 1.0"

text \<open>Lines 221-234: the loop body schedules two events and appends them to those scheduled so far.\<close>

definition schedule_body :: "socket option list \<Rightarrow> Ipv4Address \<Rightarrow> u16 \<Rightarrow> u32 \<Rightarrow> event list \<Rightarrow> event list" where
  "schedule_body vehicleSockets rsuIp port i events =
     (let rsuAddr = rsuIp;
          vehId = i + 1;
          tsend = sendStart + real (unat i);
          lam = \<lparr>cap_sock = ByCopy (vehicleSockets ! unat i), cap_rsuAddr = ByCopy rsuAddr,
                 cap_port = ByCopy port, cap_vehId = ByCopy vehId\<rparr>
      in events @ [\<lparr>scheduled_at = tsend, callback = lam\<rparr>,
                   \<lparr>scheduled_at = tsend + 1.0, callback = lam\<rparr>])"

definition schedule_sends :: "u32 \<Rightarrow> socket option list \<Rightarrow> Ipv4Address \<Rightarrow> u16 \<Rightarrow> event list" where
  "schedule_sends nVehicles vehicleSockets rsuIp port =
     for_u32 0 nVehicles (schedule_body vehicleSockets rsuIp port) []"

text \<open>Lines 209-234 together; \<open>rsuIp\<close> is the address computed at line 147.\<close>

definition main_sends :: "u32 \<Rightarrow> Ipv4Address \<Rightarrow> event list" where
  "main_sends nVehicles rsuIp =
     (let port = 5000;
          vehicleSockets = create_vehicleSockets nVehicles
      in schedule_sends nVehicles vehicleSockets rsuIp port)"

section \<open>Pre-populating the ARP caches (lines 144-166)\<close>

text \<open>
  The ns-3 objects this phase touches, with the fields it sets. An \<^verbatim>\<open>ArpCache\<close> maps
  addresses to entries; a new one is empty and has the default alive timeout of 120 s.
  \<^verbatim>\<open>Add\<close> inserts a fresh entry (state \<open>ALIVE\<close>, no MAC address yet) and returns a pointer to
  it; \<^verbatim>\<open>SetMacAddress\<close> and \<^verbatim>\<open>MarkPermanent\<close> act on the cache through that pointer, which
  the model names by the entry's key. All of these are ns-3's, used under their documented
  contracts.
\<close>

datatype arp_state = ALIVE | WAIT_REPLY | DEAD | PERMANENT | STATIC_AUTOGENERATED

record ArpCache_Entry =
  macAddress :: "Mac48Address option"
  state :: arp_state

record ArpCache =
  aliveTimeout :: real
  arpEntries :: "Ipv4Address \<rightharpoonup> ArpCache_Entry"

definition CreateObject_ArpCache :: ArpCache where
  "CreateObject_ArpCache = \<lparr>aliveTimeout = 120, arpEntries = Map.empty\<rparr>"

definition SetAliveTimeout :: "real \<Rightarrow> ArpCache \<Rightarrow> ArpCache" where
  "SetAliveTimeout t arp = arp\<lparr>aliveTimeout := t\<rparr>"

definition Add :: "Ipv4Address \<Rightarrow> ArpCache \<Rightarrow> ArpCache" where
  "Add to arp = arp\<lparr>arpEntries := (arpEntries arp)(to \<mapsto> \<lparr>macAddress = None, state = ALIVE\<rparr>)\<rparr>"

definition SetMacAddress :: "Ipv4Address \<Rightarrow> Mac48Address \<Rightarrow> ArpCache \<Rightarrow> ArpCache" where
  "SetMacAddress entry mac arp =
     arp\<lparr>arpEntries := (\<lambda>ip. if ip = entry
                                then map_option (\<lambda>e. e\<lparr>macAddress := Some mac\<rparr>) (arpEntries arp ip)
                                else arpEntries arp ip)\<rparr>"

definition MarkPermanent :: "Ipv4Address \<Rightarrow> ArpCache \<Rightarrow> ArpCache" where
  "MarkPermanent entry arp =
     arp\<lparr>arpEntries := (\<lambda>ip. if ip = entry
                                then map_option (\<lambda>e. e\<lparr>state := PERMANENT\<rparr>) (arpEntries arp ip)
                                else arpEntries arp ip)\<rparr>"

text \<open>
  An \<^verbatim>\<open>Ipv4Interface\<close> holds a pointer to its ARP cache (null for none). A vehicle node is
  seen through its \<^verbatim>\<open>Ipv4L3Protocol\<close>, which line 138 aggregates to every node: the list of
  its interfaces, \<^verbatim>\<open>GetNInterfaces()\<close> of them as a \<^verbatim>\<open>uint32_t\<close>. A \<^verbatim>\<open>NetDevice\<close> is seen
  through its node and its MAC address.
\<close>

record Ipv4Interface =
  GetArpCache :: "ArpCache option"

record Ipv4L3Protocol =
  interfaces :: "Ipv4Interface list"

record NetDevice =
  GetNode :: node_ptr
  GetAddress :: Mac48Address

definition GetNInterfaces :: "Ipv4L3Protocol \<Rightarrow> u32" where
  "GetNInterfaces ipv4proto = of_nat (length (interfaces ipv4proto))"

datatype arp_output = PrintPrepopulated u32 Ipv4Address Mac48Address

text \<open>
  Lines 151-165, the body of the loop for vehicle \<open>i\<close>. The cache is built completely before
  the pointer to it is stored in the interfaces, so holding its value in each interface
  describes the state at the end of the phase.
\<close>

definition arp_body ::
  "Ipv4Address \<Rightarrow> Mac48Address \<Rightarrow> u32 \<Rightarrow> Ipv4L3Protocol list \<times> arp_output list
     \<Rightarrow> Ipv4L3Protocol list \<times> arp_output list" where
  "arp_body rsuIp rsuMac i st =
     (let (vehicles, out) = st;
          ipv4proto = vehicles ! unat i;
          arp = CreateObject_ArpCache;
          arp = SetAliveTimeout 3600 arp;
          arp = Add rsuIp arp;
          arp = SetMacAddress rsuIp rsuMac arp;
          arp = MarkPermanent rsuIp arp;
          ifaces = for_u32 0 (GetNInterfaces ipv4proto)
                     (\<lambda>j ifaces. ifaces[unat j := (ifaces ! unat j)\<lparr>GetArpCache := Some arp\<rparr>])
                     (interfaces ipv4proto)
      in (vehicles[unat i := ipv4proto\<lparr>interfaces := ifaces\<rparr>],
          out @ [PrintPrepopulated i rsuIp rsuMac]))"

text \<open>
  Lines 145-166. \<open>devices\<close> is the container \<^verbatim>\<open>wifi.Install(phy, mac, allNodes)\<close> returned,
  \<open>addresses\<close> the addresses of \<^verbatim>\<open>ipv4.Assign(devices)\<close> by index, \<open>vehicles\<close> the
  \<^verbatim>\<open>Ipv4L3Protocol\<close> of each vehicle node by index.
\<close>

definition main_arp ::
  "u32 \<Rightarrow> NetDevice list \<Rightarrow> Ipv4Address list \<Rightarrow> Ipv4L3Protocol list
     \<Rightarrow> Ipv4L3Protocol list \<times> arp_output list" where
  "main_arp nVehicles devices addresses vehicles =
     (let rsuDev = devices ! unat nVehicles;
          rsuMac = GetAddress rsuDev;
          rsuIp = addresses ! unat nVehicles
      in for_u32 0 nVehicles (arp_body rsuIp rsuMac) (vehicles, []))"

text \<open>Lines 102-109: the nodes of \<open>allNodes\<close>, vehicles first, then the RSU.\<close>

definition allNodes :: "u32 \<Rightarrow> node_ptr list" where
  "allNodes nVehicles = map (\<lambda>k. Vehicle (of_nat k)) [0..<unat nVehicles] @ [Rsu]"

text \<open>
  Lines 145-166 and 209-234 of \<^verbatim>\<open>main\<close> in one: the variable \<open>rsuIp\<close> of line 147 is the one
  the ARP loop stores in the caches (line 155) and the one the scheduling loop copies into
  \<open>rsuAddr\<close> (line 223), the destination of every send. The result is the vehicles as the ARP
  phase leaves them and the events scheduled.
\<close>

definition main_arp_and_sends ::
  "u32 \<Rightarrow> NetDevice list \<Rightarrow> Ipv4Address list \<Rightarrow> Ipv4L3Protocol list
     \<Rightarrow> Ipv4L3Protocol list \<times> event list" where
  "main_arp_and_sends nVehicles devices addresses vehicles =
     (let rsuIp = addresses ! unat nVehicles;
          (vehicles', out) = main_arp nVehicles devices addresses vehicles;
          sends = main_sends nVehicles rsuIp
      in (vehicles', sends))"

text \<open>
  Address resolution when a packet leaves. \<^verbatim>\<open>Ipv4Interface::Send(packet, header, dest)\<close> asks
  \<^verbatim>\<open>ArpL3Protocol::Lookup(packet, header, dest, device, cache, &hardwareDestination)\<close>, with
  the interface's own cache, for the hardware address of a unicast destination that is not
  local. Both are ns-3's; \<^verbatim>\<open>Lookup\<close> is used under its contract in ns-3.38:
  \<^item> no entry for the destination: an entry is added and marked as waiting for a reply, an ARP
    request is scheduled, and the result is false;
  \<^item> an expired entry: for a dead or an alive entry an ARP request is scheduled and the
    result is false; any other state is a fatal error;
  \<^item> a valid entry: a dead entry drops the packet, an entry waiting for a reply keeps the
    packet pending (both false); an alive, a permanent or an auto-generated entry stores
    the entry's MAC address in \<open>hardwareDestination\<close> and the result is true, with no request.

  An entry is expired when the time since it was last seen exceeds the timeout of its
  state. The timeout of a permanent or auto-generated entry is \<^verbatim>\<open>Time::Max()\<close>, which no
  elapsed time exceeds. The model does not hold the time an entry was last seen: whether
  the elapsed time exceeds the finite timeout of another state is the parameter \<open>timedOut\<close>.
\<close>

datatype lookup_outcome =
    Resolved "Mac48Address option"
  | ArpRequestSent
  | PacketDropped
  | PacketPending
  | LookupFatalError

definition IsExpired :: "bool \<Rightarrow> ArpCache_Entry \<Rightarrow> bool" where
  "IsExpired timedOut entry =
     (case state entry of
        PERMANENT \<Rightarrow> False
      | STATIC_AUTOGENERATED \<Rightarrow> False
      | ALIVE \<Rightarrow> timedOut
      | WAIT_REPLY \<Rightarrow> timedOut
      | DEAD \<Rightarrow> timedOut)"

definition ArpL3Protocol_Lookup :: "bool \<Rightarrow> ArpCache \<Rightarrow> Ipv4Address \<Rightarrow> lookup_outcome" where
  "ArpL3Protocol_Lookup timedOut cache destination =
     (case arpEntries cache destination of
        Some entry \<Rightarrow>
          if IsExpired timedOut entry
          then (case state entry of
                  DEAD \<Rightarrow> ArpRequestSent
                | ALIVE \<Rightarrow> ArpRequestSent
                | WAIT_REPLY \<Rightarrow> LookupFatalError
                | PERMANENT \<Rightarrow> LookupFatalError
                | STATIC_AUTOGENERATED \<Rightarrow> LookupFatalError)
          else (case state entry of
                  DEAD \<Rightarrow> PacketDropped
                | ALIVE \<Rightarrow> Resolved (macAddress entry)
                | WAIT_REPLY \<Rightarrow> PacketPending
                | PERMANENT \<Rightarrow> Resolved (macAddress entry)
                | STATIC_AUTOGENERATED \<Rightarrow> Resolved (macAddress entry))
      | None \<Rightarrow> ArpRequestSent)"

section \<open>Installing the queue discs (lines 168-206)\<close>

text \<open>
  What the phase reads and writes of a device: whether the device's node has a
  \<^verbatim>\<open>TrafficControlLayer\<close> aggregated (\<^verbatim>\<open>tc\<close> is non-null), and the root queue disc that layer
  holds for the device (\<^verbatim>\<open>GetRootQueueDiscOnDevice(dev)\<close>, null for none), by its type name.
  The list follows the container \<open>devices\<close>, whose entries are distinct devices: a device
  is named by its index.
\<close>

record tc_device =
  tc_aggregated :: bool
  rootQueueDisc :: "string option"

datatype tc_output = PrintSkipping u32 | PrintInstalled u32 | PrintNoneRequired

text \<open>Lines 175-194, the body of the loop for device \<open>i\<close>.\<close>

definition select_body :: "tc_device list \<Rightarrow> u32 \<Rightarrow> u32 list \<times> tc_output list \<Rightarrow> u32 list \<times> tc_output list" where
  "select_body devices i st =
     (let (devicesToInstall, out) = st;
          dev = devices ! unat i;
          alreadyHas = False;
          alreadyHas = (if tc_aggregated dev
                        then (if rootQueueDisc dev \<noteq> None then True else alreadyHas)
                        else alreadyHas)
      in if \<not> alreadyHas then (devicesToInstall @ [i], out)
         else (devicesToInstall, out @ [PrintSkipping i]))"

definition select_devices :: "tc_device list \<Rightarrow> u32 list \<times> tc_output list" where
  "select_devices devices = for_u32 0 (GetN devices) (select_body devices) ([], [])"

text \<open>
  \<^verbatim>\<open>TrafficControlHelper::Install(container)\<close> is ns-3's. It installs the configured root
  queue disc on each device of the container in turn; on a device whose node has no
  traffic-control layer it fails an assertion, and on a device that already has a root queue
  disc it stops with a fatal error.
\<close>

fun tch_Install :: "string \<Rightarrow> u32 list \<Rightarrow> tc_device list \<Rightarrow> error + tc_device list" where
  "tch_Install qdisc [] devices = Inr devices"
| "tch_Install qdisc (d # ds) devices =
     (let dev = devices ! unat d in
      if \<not> tc_aggregated dev then Inl AssertFailed
      else if rootQueueDisc dev \<noteq> None then Inl FatalError
      else tch_Install qdisc ds (devices[unat d := dev\<lparr>rootQueueDisc := Some qdisc\<rparr>]))"

text \<open>Lines 169-206.\<close>

definition main_traffic_control :: "tc_device list \<Rightarrow> error + tc_device list \<times> tc_output list" where
  "main_traffic_control devices =
     (let rootQueueDiscType = ''ns3::PfifoFastQueueDisc'';
          (devicesToInstall, out) = select_devices devices
      in if GetN devicesToInstall > 0
         then (case tch_Install rootQueueDiscType devicesToInstall devices of
                 Inl e \<Rightarrow> Inl e
               | Inr devices' \<Rightarrow> Inr (devices', out @ [PrintInstalled (GetN devicesToInstall)]))
         else Inr (devices, out @ [PrintNoneRequired]))"

section \<open>Tracing, flow monitor and run (lines 236-259)\<close>

text \<open>
  The end of \<^verbatim>\<open>main\<close> is a sequence of library calls; the model returns the calls made, in
  order. \<^verbatim>\<open>FlowMonitorHelper::InstallAll()\<close> installs a monitor on all nodes and returns a
  pointer to it; the pointer it returns is the parameter \<open>installAll\<close>.
\<close>

datatype FlowMonitor = FlowMonitorObject

datatype call =
    EnablePcapAll string bool
  | CreateFileStream string
  | EnableAsciiAll
  | InstallAll
  | Simulator_Stop real
  | Simulator_Run
  | CheckForLostPackets
  | SerializeToXmlFile string bool bool
  | Simulator_Destroy

definition main_trace_and_run :: "bool \<Rightarrow> bool \<Rightarrow> real \<Rightarrow> FlowMonitor option \<Rightarrow> call list" where
  "main_trace_and_run enablePcap enableFlowMonitor simTime installAll =
     (let calls = (if enablePcap then [EnablePcapAll ''v2x-sim-final'' True] else []);
          calls = calls @ [CreateFileStream ''v2x-sim-final.tr'', EnableAsciiAll];
          flowMonitor = None;
          (flowMonitor, calls) =
             (if enableFlowMonitor then (installAll, calls @ [InstallAll]) else (flowMonitor, calls));
          calls = calls @ [Simulator_Stop simTime, Simulator_Run];
          calls = (if enableFlowMonitor \<and> flowMonitor \<noteq> None
                   then calls @ [CheckForLostPackets,
                                 SerializeToXmlFile ''v2x-sim-final-flowmon.xml'' True True]
                   else calls)
      in calls @ [Simulator_Destroy])"

section \<open>The kernel of the specification\<close>

text \<open>
  The specification describes a simulation kernel (EventQueue, Medium, NodeQueue) that the
  script does not contain: the script hands events to ns-3's
  \<^verbatim>\<open>Simulator\<close> and leaves the channel and the queues to ns-3. The
  definitions of this section follow the contracts of the specification's sections 3, 4 and
  7. Timestamps are \<open>real\<close> numbers of seconds.
\<close>

datatype kernel_error = InvalidScheduleError | QueueFullError | SetupError

subsection \<open>EventQueue\<close>

text \<open>
  Modelled from the spec: the EventQueue (\<^verbatim>\<open>schedule\<close>,
  \<^verbatim>\<open>runUntil\<close>), which the repository does not implement. An event
  is \<open>{scheduledTime, sequence, action}\<close>; the queue holds the monotonic
  ``now'' pointer, the tie-break counter, and the pending events as a priority structure
  keyed by (time, sequence): a list kept in key order, smallest key first.
\<close>

record 'a Event =
  scheduledTime :: real
  sequence :: nat
  action :: 'a

record 'a EventQueue =
  nowPointer :: real
  nextSequence :: nat
  events :: "'a Event list"

definition newEventQueue :: "'a EventQueue" where
  "newEventQueue = \<lparr>nowPointer = 0, nextSequence = 0, events = []\<rparr>"

text \<open>
  Modelled from the spec: the key order of the priority structure. Earlier time first, and
  among equal times the smaller sequence first (``FIFO by sequence'').
\<close>

definition before :: "'a Event \<Rightarrow> 'a Event \<Rightarrow> bool" where
  "before e x \<longleftrightarrow>
     scheduledTime e < scheduledTime x \<or>
     (scheduledTime e = scheduledTime x \<and> sequence e < sequence x)"

fun insert_event :: "'a Event \<Rightarrow> 'a Event list \<Rightarrow> 'a Event list" where
  "insert_event e [] = [e]"
| "insert_event e (x # xs) = (if before e x then e # x # xs else x # insert_event e xs)"

text \<open>
  Modelled from the spec: \<^verbatim>\<open>schedule(time, action) -> EventHandle\<close>.
  It fails with \<open>InvalidScheduleError\<close> if \<open>time < now\<close>; otherwise
  the event gets the next sequence number, which is also its handle.
\<close>

definition schedule :: "real \<Rightarrow> 'a \<Rightarrow> 'a EventQueue \<Rightarrow> kernel_error + nat \<times> 'a EventQueue" where
  "schedule t a q =
     (if t < nowPointer q then Inl InvalidScheduleError
      else Inr (nextSequence q,
                q\<lparr>nextSequence := nextSequence q + 1,
                  events := insert_event
                    \<lparr>scheduledTime = t, sequence = nextSequence q, action = a\<rparr> (events q)\<rparr>))"

text \<open>
  Modelled from the spec: a sequence of \<^verbatim>\<open>schedule\<close> calls, made in
  order by the driver or by a running action. A failing call is fatal to the call, not to
  the run: it leaves the queue as it is.
\<close>

fun schedule_all :: "(real \<times> 'a) list \<Rightarrow> 'a EventQueue \<Rightarrow> 'a EventQueue" where
  "schedule_all [] q = q"
| "schedule_all ((t, a) # rest) q =
     (case schedule t a q of
        Inl err \<Rightarrow> schedule_all rest q
      | Inr (handle, q') \<Rightarrow> schedule_all rest q')"

text \<open>
  Modelled from the spec: dispatching the first pending event. The event leaves the queue,
  ``now'' advances to its time, and its action executes. What an action does is a
  parameter: \<open>run a t w\<close> gives, for the action \<open>a\<close> executed at
  time \<open>t\<close> in the state \<open>w\<close> of the rest of the system, the
  \<^verbatim>\<open>schedule\<close> calls it makes, in order, and the new state.
\<close>

definition dispatch ::
  "('a \<Rightarrow> real \<Rightarrow> 'w \<Rightarrow> (real \<times> 'a) list \<times> 'w) \<Rightarrow> 'a Event \<Rightarrow> 'a EventQueue \<times> 'w
     \<Rightarrow> 'a EventQueue \<times> 'w" where
  "dispatch run e st =
     (let (q, w) = st;
          q = q\<lparr>nowPointer := scheduledTime e, events := tl (events q)\<rparr>;
          (calls, w) = run (action e) (scheduledTime e) w
      in (schedule_all calls q, w))"

text \<open>
  Modelled from the spec: \<^verbatim>\<open>runUntil(stopTime)\<close>, an iterative loop
  that dispatches the first pending event while its time is at most
  \<open>stopTime\<close>. Actions may keep scheduling events, so the loop need not end:
  the model runs it for at most \<open>fuel\<close> dispatches and returns whether the loop
  returned within them, the state reached, and the events dispatched so far, in order.
\<close>

fun runUntil ::
  "nat \<Rightarrow> ('a \<Rightarrow> real \<Rightarrow> 'w \<Rightarrow> (real \<times> 'a) list \<times> 'w) \<Rightarrow> real \<Rightarrow> 'a EventQueue \<times> 'w
     \<Rightarrow> 'a Event list \<Rightarrow> bool \<times> ('a EventQueue \<times> 'w) \<times> 'a Event list" where
  "runUntil fuel run stopTime st dispatched =
     (case events (fst st) of
        [] \<Rightarrow> (True, st, dispatched)
      | e # rest \<Rightarrow>
          if scheduledTime e \<le> stopTime
          then (case fuel of
                  0 \<Rightarrow> (False, st, dispatched)
                | Suc fuel' \<Rightarrow> runUntil fuel' run stopTime (dispatch run e st) (dispatched @ [e]))
          else (True, st, dispatched))"

declare runUntil.simps [simp del]

subsection \<open>Medium\<close>

text \<open>
  Modelled from the spec: the Medium (\<^verbatim>\<open>attemptSend\<close>,
  \<^verbatim>\<open>transmissionTime\<close>), which the repository does not implement.
  The configuration is fixed at construction, and a bit rate that is zero or negative is a
  setup error. The policy of section 4.2: an attempt at \<open>now \<ge> busyUntil\<close>
  succeeds and occupies the channel for the transmission time; an attempt at \<open>now <
  busyUntil\<close> is deferred to \<open>busyUntil\<close>. A new medium is free
  (\<open>busyUntil = 0\<close>). The specification leaves the collision policy
  configurable and gives no rule for it, so this model has none and never answers
  \<open>Collision\<close>.
\<close>

record kernel_packet =
  packetId :: nat
  sizeBytes :: nat
  sourceNodeId :: nat
  destNodeId :: nat
  enqueueTime :: real
  deliverTime :: "real option"

record MediumConfig =
  propagationDelay :: real
  bitRate :: real
  collisionWindow :: real

record MediumState =
  config :: MediumConfig
  busyUntil :: real

datatype Outcome = Success real | Collision | Deferred real

definition newMedium :: "MediumConfig \<Rightarrow> kernel_error + MediumState" where
  "newMedium cfg =
     (if bitRate cfg \<le> 0 then Inl SetupError else Inr \<lparr>config = cfg, busyUntil = 0\<rparr>)"

definition transmissionTime :: "MediumState \<Rightarrow> nat \<Rightarrow> real" where
  "transmissionTime m nbytes = real nbytes * 8 / bitRate (config m)"

definition attemptSend :: "MediumState \<Rightarrow> nat \<Rightarrow> kernel_packet \<Rightarrow> real \<Rightarrow> Outcome \<times> MediumState" where
  "attemptSend m nodeId packet t =
     (if t \<ge> busyUntil m
      then (Success (t + propagationDelay (config m) + transmissionTime m (sizeBytes packet)),
            m\<lparr>busyUntil := t + transmissionTime m (sizeBytes packet)\<rparr>)
      else (Deferred (busyUntil m), m))"

subsection \<open>NodeQueue\<close>

text \<open>
  Modelled from the spec: the NodeQueue (\<^verbatim>\<open>enqueue\<close>), which the
  repository does not implement. \<^verbatim>\<open>enqueue(packet) -> bool\<close> appends
  if \<open>len(pending) < capacity\<close>; otherwise it fails with
  \<open>QueueFullError\<close> and increments \<open>droppedCount\<close>.
\<close>

record NodeQueueState =
  nodeId :: nat
  pending :: "kernel_packet list"
  capacity :: nat
  droppedCount :: nat

definition enqueue :: "kernel_packet \<Rightarrow> NodeQueueState \<Rightarrow> (kernel_error + bool) \<times> NodeQueueState" where
  "enqueue packet q =
     (if length (pending q) < capacity q
      then (Inr True, q\<lparr>pending := pending q @ [packet]\<rparr>)
      else (Inl QueueFullError, q\<lparr>droppedCount := droppedCount q + 1\<rparr>))"

text \<open>
  Modelled from the spec: a sequence of \<^verbatim>\<open>enqueue\<close> calls on one
  queue, with the result of each call.
\<close>

fun enqueue_all :: "kernel_packet list \<Rightarrow> NodeQueueState \<Rightarrow> (kernel_error + bool) list \<times> NodeQueueState" where
  "enqueue_all [] q = ([], q)"
| "enqueue_all (p # ps) q =
     (let (r, q') = enqueue p q; (rs, q'') = enqueue_all ps q' in (r # rs, q''))"

text \<open>
  The invariant of the dispatch loop, for the pending events of a queue and the events
  dispatched so far: both are in key order; every pending event is at or after ``now'' and
  carries a sequence number already handed out; every dispatched event is at or before
  ``now'', at or before the stop time, and before every pending event in key order.
\<close>

definition queue_inv :: "real \<Rightarrow> 'a EventQueue \<Rightarrow> 'a Event list \<Rightarrow> bool" where
  "queue_inv stopTime q dispatched \<longleftrightarrow>
     sorted_wrt before (events q) \<and>
     (\<forall>e \<in> set (events q). nowPointer q \<le> scheduledTime e \<and> sequence e < nextSequence q) \<and>
     sorted_wrt before dispatched \<and>
     (\<forall>d \<in> set dispatched.
        scheduledTime d \<le> nowPointer q \<and> scheduledTime d \<le> stopTime \<and>
        sequence d < nextSequence q \<and> (\<forall>e \<in> set (events q). before d e))"

chapter \<open>Properties of the scenario script\<close>

section \<open>The counting loop as a fold\<close>

lemma unat_of_nat_u32: "k < 2 ^ 32 \<Longrightarrow> unat (of_nat k :: u32) = k"
  by (simp add: unat_of_nat)

lemma unat_below_u32: "unat (n :: u32) < 2 ^ 32"
  using unsigned_less [of n] by simp

lemma for_u32_fold:
  "for_u32 i n body s = fold body (map of_nat [unat i..<unat n]) s"
proof (induction i n body s rule: for_u32.induct)
  case (1 i n body s)
  show ?case
  proof (cases "i < n")
    case True
    then have below: "unat i < unat n" by (simp add: word_less_nat_alt)
    with unat_below_u32 [of n] have "unat i + 1 < 2 ^ 32" by linarith
    then have suc: "unat (i + 1) = Suc (unat i)" by (simp add: unat_word_ariths)
    have "[unat i..<unat n] = unat i # [Suc (unat i)..<unat n]"
      using below by (simp add: upt_conv_Cons)
    then show ?thesis
      using True "1.IH" [OF True] suc by (simp add: for_u32.simps [of i n])
  next
    case False
    then have "unat n \<le> unat i" by (simp add: word_less_nat_alt)
    then show ?thesis using False by (simp add: for_u32.simps [of i n])
  qed
qed

lemma for_u32_from_0:
  "for_u32 0 n body s = fold body (map of_nat [0..<unat n]) s"
  using for_u32_fold [of 0 n body s] by simp

lemma fold_append_each:
  "fold (\<lambda>x acc. acc @ g x) xs acc = acc @ concat (map g xs)"
  by (induction xs arbitrary: acc) simp_all

lemma fold_update_nth:
  assumes "k \<le> length v" "k < 2 ^ 32"
  shows "fold (\<lambda>(i::u32) v. v[unat i := G i (v ! unat i)]) (map of_nat [0..<k]) v =
         map (\<lambda>j. G (of_nat j) (v ! j)) [0..<k] @ drop k v"
  using assms
proof (induction k)
  case 0
  then show ?case by simp
next
  case (Suc k)
  then have ih: "fold (\<lambda>(i::u32) v. v[unat i := G i (v ! unat i)]) (map of_nat [0..<k]) v =
         map (\<lambda>j. G (of_nat j) (v ! j)) [0..<k] @ drop k v" by simp
  have uk: "unat (of_nat k :: u32) = k" using Suc.prems by (simp add: unat_of_nat)
  have "drop k v = v ! k # drop (Suc k) v"
    using Suc.prems by (simp add: Cons_nth_drop_Suc)
  then show ?case
    using ih uk by (simp add: list_update_append nth_append)
qed

lemma concat_single_index:
  "concat (map (\<lambda>k. if k = m then g k else []) [0..<N]) = (if m < N then g m else [])"
  by (induction N) auto

lemma concat_map_cong:
  "(\<And>x. x \<in> set xs \<Longrightarrow> f x = g x) \<Longrightarrow> concat (map f xs) = concat (map g xs)"
  by (induction xs) simp_all

section \<open>\<^verbatim>\<open>ReceivePacket\<close>\<close>

lemma ReceivePacket_loop_drains:
  "ReceivePacket_loop now s out =
     (s\<lparr>deliveryQueue := []\<rparr>,
      out @ map (\<lambda>(packet, from). PrintReceived now (GetSize packet) (GetIpv4 from)) (deliveryQueue s))"
proof (induction "deliveryQueue s" arbitrary: s out)
  case Nil
  then show ?case
    by (simp add: ReceivePacket_loop.simps [of now s] RecvFrom_def)
next
  case (Cons x rest)
  obtain packet "from" where x: "x = (packet, from)" by (cases x)
  have q: "deliveryQueue s = x # rest" using Cons.hyps(2) by simp
  have "rest = deliveryQueue (s\<lparr>deliveryQueue := rest\<rparr>)" by simp
  note ih = Cons.hyps(1) [OF this]
  show ?case
    by (simp add: ReceivePacket_loop.simps [of now s] RecvFrom_def q x ih)
qed

text \<open>
  Claim C10. One call of the RSU's receive callback drains the socket: the callback returns
  (the function is total), the socket it leaves has nothing pending, so that a further
  \<^verbatim>\<open>RecvFrom\<close> returns null, and it has printed exactly one line per packet that was
  pending, in arrival order, with the time, the packet's byte count and the sender's IPv4
  address.
\<close>

theorem ReceivePacket_drains_socket:
  "deliveryQueue (fst (ReceivePacket now s)) = [] \<and>
   RecvFrom (fst (ReceivePacket now s)) = (None, fst (ReceivePacket now s)) \<and>
   snd (ReceivePacket now s) =
     map (\<lambda>(packet, from). PrintReceived now (GetSize packet) (GetIpv4 from)) (deliveryQueue s)"
  by (simp add: ReceivePacket_def ReceivePacket_loop_drains RecvFrom_def)

section \<open>The scheduled sends\<close>

lemma create_vehicleSockets_eq:
  "create_vehicleSockets n = map (\<lambda>k. Some (UdpSocket (Vehicle (of_nat k)))) [0..<unat n]"
proof -
  have "fold (\<lambda>(i::u32) v. v[unat i := Some (UdpSocket (Vehicle i))]) (map of_nat [0..<unat n])
          (replicate (unat n) None)
        = map (\<lambda>j. Some (UdpSocket (Vehicle (of_nat j)))) [0..<unat n]
          @ drop (unat n) (replicate (unat n) None)"
    by (rule fold_update_nth [where G = "\<lambda>(i::u32) x. Some (UdpSocket (Vehicle i))"])
       (use unat_below_u32 [of n] in simp_all)
  then show ?thesis
    by (simp add: create_vehicleSockets_def for_u32_from_0)
qed

lemma schedule_sends_eq:
  "schedule_sends n vs ip port =
     concat (map (\<lambda>k. schedule_body vs ip port (of_nat k) []) [0..<unat n])"
proof -
  have body: "schedule_body vs ip port = (\<lambda>i acc. acc @ schedule_body vs ip port i [])"
    by (rule ext, rule ext) (simp add: schedule_body_def Let_def)
  show ?thesis
    unfolding schedule_sends_def for_u32_from_0
    by (subst body) (simp add: fold_append_each comp_def)
qed

lemma schedule_body_at:
  assumes "k < unat n"
  shows "schedule_body (create_vehicleSockets n) ip 5000 (of_nat k) [] =
        [\<lparr>scheduled_at = 1 + real k,
          callback = \<lparr>cap_sock = ByCopy (Some (UdpSocket (Vehicle (of_nat k)))),
                      cap_rsuAddr = ByCopy ip, cap_port = ByCopy 5000,
                      cap_vehId = ByCopy (of_nat k + 1)\<rparr>\<rparr>,
         \<lparr>scheduled_at = 2 + real k,
          callback = \<lparr>cap_sock = ByCopy (Some (UdpSocket (Vehicle (of_nat k)))),
                      cap_rsuAddr = ByCopy ip, cap_port = ByCopy 5000,
                      cap_vehId = ByCopy (of_nat k + 1)\<rparr>\<rparr>]"
proof -
  have "k < 2 ^ 32" using assms unat_below_u32 [of n] by linarith
  then have uk: "unat (of_nat k :: u32) = k" by (simp add: unat_of_nat)
  show ?thesis
    using assms by (simp add: schedule_body_def create_vehicleSockets_eq uk sendStart_def Let_def)
qed

lemma main_sends_explicit:
  "main_sends n ip =
     concat (map (\<lambda>k. [\<lparr>scheduled_at = 1 + real k,
          callback = \<lparr>cap_sock = ByCopy (Some (UdpSocket (Vehicle (of_nat k)))),
                      cap_rsuAddr = ByCopy ip, cap_port = ByCopy 5000,
                      cap_vehId = ByCopy (of_nat k + 1)\<rparr>\<rparr>,
         \<lparr>scheduled_at = 2 + real k,
          callback = \<lparr>cap_sock = ByCopy (Some (UdpSocket (Vehicle (of_nat k)))),
                      cap_rsuAddr = ByCopy ip, cap_port = ByCopy 5000,
                      cap_vehId = ByCopy (of_nat k + 1)\<rparr>\<rparr>]) [0..<unat n])"
proof -
  have "main_sends n ip =
     concat (map (\<lambda>k. schedule_body (create_vehicleSockets n) ip 5000 (of_nat k) []) [0..<unat n])"
    by (simp add: main_sends_def schedule_sends_eq)
  also have "\<dots> = concat (map (\<lambda>k. [\<lparr>scheduled_at = 1 + real k,
          callback = \<lparr>cap_sock = ByCopy (Some (UdpSocket (Vehicle (of_nat k)))),
                      cap_rsuAddr = ByCopy ip, cap_port = ByCopy 5000,
                      cap_vehId = ByCopy (of_nat k + 1)\<rparr>\<rparr>,
         \<lparr>scheduled_at = 2 + real k,
          callback = \<lparr>cap_sock = ByCopy (Some (UdpSocket (Vehicle (of_nat k)))),
                      cap_rsuAddr = ByCopy ip, cap_port = ByCopy 5000,
                      cap_vehId = ByCopy (of_nat k + 1)\<rparr>\<rparr>]) [0..<unat n])"
    by (rule concat_map_cong) (simp add: schedule_body_at)
  finally show ?thesis .
qed

lemma length_concat_pairs: "length (concat (map (\<lambda>k. [f k, g k]) xs)) = 2 * length xs"
  by (induction xs) simp_all

lemma main_sends_2:
  "main_sends 2 167837955 =
    [\<lparr>scheduled_at = 1, callback = \<lparr>cap_sock = ByCopy (Some (UdpSocket (Vehicle 0))),
          cap_rsuAddr = ByCopy 167837955, cap_port = ByCopy 5000, cap_vehId = ByCopy 1\<rparr>\<rparr>,
     \<lparr>scheduled_at = 2, callback = \<lparr>cap_sock = ByCopy (Some (UdpSocket (Vehicle 0))),
          cap_rsuAddr = ByCopy 167837955, cap_port = ByCopy 5000, cap_vehId = ByCopy 1\<rparr>\<rparr>,
     \<lparr>scheduled_at = 2, callback = \<lparr>cap_sock = ByCopy (Some (UdpSocket (Vehicle 1))),
          cap_rsuAddr = ByCopy 167837955, cap_port = ByCopy 5000, cap_vehId = ByCopy 2\<rparr>\<rparr>,
     \<lparr>scheduled_at = 3, callback = \<lparr>cap_sock = ByCopy (Some (UdpSocket (Vehicle 1))),
          cap_rsuAddr = ByCopy 167837955, cap_port = ByCopy 5000, cap_vehId = ByCopy 2\<rparr>\<rparr>]"
  by (simp add: main_sends_def schedule_sends_def create_vehicleSockets_def schedule_body_def
        sendStart_def for_u32.simps Let_def)

text \<open>
  Claim C2. For a vehicle index \<open>i < nVehicles\<close>, the events the program schedules for the
  socket of vehicle \<open>i\<close> are exactly two, at 1.0 + i and at 2.0 + i seconds, with the same
  closure; whenever that closure runs it makes one \<^verbatim>\<open>SendTo\<close> call, with a packet of 100
  bytes, flags 0 and the destination (RSU address, port 5000), on the UDP socket of vehicle
  \<open>i\<close>, and prints one line. The program schedules \<open>2 * nVehicles\<close> events in all, so there
  are no others. For \<open>i = 0\<close> the first of the two times is 1.0 s.
\<close>

theorem main_schedules_two_sends_per_vehicle:
  assumes "i < nVehicles"
  shows "(\<exists>l. filter (\<lambda>e. cap_sock (callback e) = ByCopy (Some (UdpSocket (Vehicle i))))
                (main_sends nVehicles rsuIp)
              = [\<lparr>scheduled_at = 1.0 + real (unat i), callback = l\<rparr>,
                 \<lparr>scheduled_at = 2.0 + real (unat i), callback = l\<rparr>]
           \<and> (\<forall>vars now. call_lambda vars now l =
                  Inr [SendTo (UdpSocket (Vehicle i)) \<lparr>GetSize = 100\<rparr> 0
                               \<lparr>GetIpv4 = rsuIp, GetPort = 5000\<rparr>,
                       PrintSent now (i + 1) rsuIp 5000]))
         \<and> length (main_sends nVehicles rsuIp) = 2 * unat nVehicles"
proof -
  let ?P = "\<lambda>e. cap_sock (callback e) = ByCopy (Some (UdpSocket (Vehicle i)))"
  let ?lam = "\<lambda>k. \<lparr>cap_sock = ByCopy (Some (UdpSocket (Vehicle (of_nat k)))),
             cap_rsuAddr = ByCopy rsuIp, cap_port = ByCopy (5000 :: u16),
             cap_vehId = ByCopy (of_nat k + 1 :: u32)\<rparr>"
  let ?h = "\<lambda>k. [\<lparr>scheduled_at = 1 + real k, callback = ?lam k\<rparr>,
                  \<lparr>scheduled_at = 2 + real k, callback = ?lam k\<rparr>]"
  have below: "unat i < unat nVehicles" using assms by (simp add: word_less_nat_alt)
  have pick: "filter ?P (?h k) = (if k = unat i then ?h k else [])"
    if "k \<in> set [0..<unat nVehicles]" for k
  proof -
    have "k < unat nVehicles" using that by simp
    then have "k < 2 ^ 32" using unat_below_u32 [of nVehicles] by linarith
    then have uk: "unat (of_nat k :: u32) = k" by (simp add: unat_of_nat)
    have "(of_nat k :: u32) = i \<longleftrightarrow> k = unat i"
      using uk by auto
    then show ?thesis by simp
  qed
  have all: "main_sends nVehicles rsuIp = concat (map ?h [0..<unat nVehicles])"
    by (rule main_sends_explicit)
  then have "filter ?P (main_sends nVehicles rsuIp) =
      concat (map (\<lambda>k. filter ?P (?h k)) [0..<unat nVehicles])"
    by (simp only: filter_concat map_map comp_def)
  also have "\<dots> = concat (map (\<lambda>k. if k = unat i then ?h k else []) [0..<unat nVehicles])"
    by (rule concat_map_cong) (rule pick)
  also have "\<dots> = ?h (unat i)"
    using below by (simp only: concat_single_index if_True)
  finally have sends: "filter ?P (main_sends nVehicles rsuIp) =
      [\<lparr>scheduled_at = 1.0 + real (unat i), callback = ?lam (unat i)\<rparr>,
       \<lparr>scheduled_at = 2.0 + real (unat i), callback = ?lam (unat i)\<rparr>]"
    by simp
  have runs: "call_lambda vars now (?lam (unat i)) =
                  Inr [SendTo (UdpSocket (Vehicle i)) \<lparr>GetSize = 100\<rparr> 0
                               \<lparr>GetIpv4 = rsuIp, GetPort = 5000\<rparr>,
                       PrintSent now (i + 1) rsuIp 5000]" for vars now
    by (simp add: call_lambda_def SendPacket_def)
  have "length (main_sends nVehicles rsuIp) = 2 * unat nVehicles"
    by (simp only: all length_concat_pairs length_upt diff_zero)
  with sends runs show ?thesis by blast
qed

theorem main_schedules_two_sends_per_vehicle_witness:
  "(0 :: u32) < 2 \<and>
   map scheduled_at (filter (\<lambda>e. cap_sock (callback e) = ByCopy (Some (UdpSocket (Vehicle 0))))
                       (main_sends 2 167837955)) = [1.0, 2.0] \<and>
   (\<exists>l. filter (\<lambda>e. cap_sock (callback e) = ByCopy (Some (UdpSocket (Vehicle 0))))
                (main_sends 2 167837955)
              = [\<lparr>scheduled_at = 1.0 + real (unat (0 :: u32)), callback = l\<rparr>,
                 \<lparr>scheduled_at = 2.0 + real (unat (0 :: u32)), callback = l\<rparr>]
           \<and> (\<forall>vars now. call_lambda vars now l =
                  Inr [SendTo (UdpSocket (Vehicle 0)) \<lparr>GetSize = 100\<rparr> 0
                               \<lparr>GetIpv4 = 167837955, GetPort = 5000\<rparr>,
                       PrintSent now (0 + 1) 167837955 5000]))
   \<and> length (main_sends 2 167837955) = 2 * unat (2 :: u32)"
proof -
  have lt: "(0 :: u32) < 2" by simp
  show ?thesis
    using main_schedules_two_sends_per_vehicle [OF lt, of 167837955] lt
    by (simp add: main_sends_2)
qed

text \<open>
  Claim C7. Every closure the program schedules holds copies only: of the socket pointer, of
  the RSU address, of the port 5000 and of the vehicle id. What a scheduled send does is
  therefore the same whatever values the variables of \<^verbatim>\<open>main\<close> named in the capture list
  have when the closure runs.
\<close>

theorem scheduled_lambdas_capture_copies:
  "\<forall>e \<in> set (main_sends nVehicles rsuIp).
     (\<exists>s v. callback e = \<lparr>cap_sock = ByCopy s, cap_rsuAddr = ByCopy rsuIp,
                           cap_port = ByCopy 5000, cap_vehId = ByCopy v\<rparr>) \<and>
     (\<forall>vars vars' now. call_lambda vars now (callback e) = call_lambda vars' now (callback e))"
  by (auto simp: main_sends_explicit call_lambda_def)

theorem scheduled_lambdas_capture_copies_witness:
  "\<lparr>scheduled_at = 1, callback = \<lparr>cap_sock = ByCopy (Some (UdpSocket (Vehicle 0))),
          cap_rsuAddr = ByCopy 167837955, cap_port = ByCopy 5000, cap_vehId = ByCopy 1\<rparr>\<rparr>
     \<in> set (main_sends 2 167837955) \<and>
   call_lambda \<lparr>var_sock = None, var_rsuAddr = 0, var_port = 0, var_vehId = 0\<rparr> 1
       \<lparr>cap_sock = ByCopy (Some (UdpSocket (Vehicle 0))),
          cap_rsuAddr = ByCopy 167837955, cap_port = ByCopy 5000, cap_vehId = ByCopy 1\<rparr>
   = call_lambda \<lparr>var_sock = Some (UdpSocket (Vehicle 1)), var_rsuAddr = 167837955,
                  var_port = 5000, var_vehId = 2\<rparr> 1
       \<lparr>cap_sock = ByCopy (Some (UdpSocket (Vehicle 0))),
          cap_rsuAddr = ByCopy 167837955, cap_port = ByCopy 5000, cap_vehId = ByCopy 1\<rparr>"
  using scheduled_lambdas_capture_copies [of 2 167837955] by (simp add: main_sends_2)

section \<open>The pre-populated ARP caches\<close>

lemma n_ifaces:
  assumes "length (interfaces p) < 2 ^ 32"
  shows "unat (GetNInterfaces p) = length (interfaces p)"
  using assms by (simp add: GetNInterfaces_def unat_of_nat)

lemma set_caches:
  assumes "length ifs < 2 ^ 32" and n: "unat m = length ifs"
  shows "for_u32 0 m (\<lambda>j ifaces. ifaces[unat j := (ifaces ! unat j)\<lparr>GetArpCache := Some c\<rparr>]) ifs
        = map (\<lambda>f. f\<lparr>GetArpCache := Some c\<rparr>) ifs"
proof -
  have "for_u32 0 m (\<lambda>j ifaces. ifaces[unat j := (ifaces ! unat j)\<lparr>GetArpCache := Some c\<rparr>]) ifs
      = fold (\<lambda>(j::u32) ifaces. ifaces[unat j := (ifaces ! unat j)\<lparr>GetArpCache := Some c\<rparr>])
          (map of_nat [0..<length ifs]) ifs"
    by (simp only: for_u32_from_0 n)
  also have "\<dots> = map (\<lambda>j. (ifs ! j)\<lparr>GetArpCache := Some c\<rparr>) [0..<length ifs] @ drop (length ifs) ifs"
    by (rule fold_update_nth [where G = "\<lambda>(j::u32) f. f\<lparr>GetArpCache := Some c\<rparr>",
          OF order_refl assms(1)])
  also have "\<dots> = map (\<lambda>f. f\<lparr>GetArpCache := Some c\<rparr>) ifs"
    by (rule nth_equalityI) simp_all
  finally show ?thesis .
qed

lemma built_cache:
  "aliveTimeout (MarkPermanent ip (SetMacAddress ip mac
      (Add ip (SetAliveTimeout 3600 CreateObject_ArpCache)))) = 3600"
  "arpEntries (MarkPermanent ip (SetMacAddress ip mac
      (Add ip (SetAliveTimeout 3600 CreateObject_ArpCache)))) ip
     = Some \<lparr>macAddress = Some mac, state = PERMANENT\<rparr>"
  by (simp_all add: MarkPermanent_def SetMacAddress_def Add_def SetAliveTimeout_def
        CreateObject_ArpCache_def)

lemma arp_body_eq:
  assumes "length (interfaces (vehicles ! unat i)) < 2 ^ 32"
  shows "arp_body ip mac i (vehicles, out) =
     (vehicles[unat i := (vehicles ! unat i)\<lparr>interfaces :=
          map (\<lambda>f. f\<lparr>GetArpCache := Some (MarkPermanent ip (SetMacAddress ip mac
                        (Add ip (SetAliveTimeout 3600 CreateObject_ArpCache))))\<rparr>)
              (interfaces (vehicles ! unat i))\<rparr>],
      out @ [PrintPrepopulated i ip mac])"
  by (simp add: arp_body_def Let_def set_caches [OF assms n_ifaces [OF assms]])

lemma fold_arp_body:
  assumes "k \<le> length vehicles" "k < 2 ^ 32"
    and "\<forall>v \<in> set vehicles. length (interfaces v) < 2 ^ 32"
  shows "fold (arp_body ip mac) (map of_nat [0..<k]) (vehicles, out) =
     (map (\<lambda>v. v\<lparr>interfaces :=
          map (\<lambda>f. f\<lparr>GetArpCache := Some (MarkPermanent ip (SetMacAddress ip mac
                        (Add ip (SetAliveTimeout 3600 CreateObject_ArpCache))))\<rparr>)
              (interfaces v)\<rparr>) (take k vehicles) @ drop k vehicles,
      out @ map (\<lambda>j. PrintPrepopulated (of_nat j) ip mac) [0..<k])"
  using assms(1,2)
proof (induction k)
  case 0
  then show ?case by simp
next
  case (Suc k)
  let ?W = "\<lambda>v. v\<lparr>interfaces :=
          map (\<lambda>f. f\<lparr>GetArpCache := Some (MarkPermanent ip (SetMacAddress ip mac
                        (Add ip (SetAliveTimeout 3600 CreateObject_ArpCache))))\<rparr>)
              (interfaces v)\<rparr>"
  let ?mid = "map ?W (take k vehicles) @ drop k vehicles"
  have k: "k < length vehicles" and k32: "k < 2 ^ 32" using Suc.prems by simp_all
  have ih: "fold (arp_body ip mac) (map of_nat [0..<k]) (vehicles, out) =
       (?mid, out @ map (\<lambda>j. PrintPrepopulated (of_nat j) ip mac) [0..<k])"
    by (rule Suc.IH) (use k k32 in simp_all)
  have uk: "unat (of_nat k :: u32) = k" using k32 by (simp add: unat_of_nat)
  have at_k: "?mid ! k = vehicles ! k" using k by (simp add: nth_append)
  have "vehicles ! k \<in> set vehicles" using k by simp
  then have small: "length (interfaces (?mid ! unat (of_nat k :: u32))) < 2 ^ 32"
    using assms(3) at_k uk by simp
  have upd: "?mid[k := ?W (vehicles ! k)] = map ?W (take (Suc k) vehicles) @ drop (Suc k) vehicles"
    using k by (simp add: list_update_append take_Suc_conv_app_nth Cons_nth_drop_Suc [symmetric])
  have step: "arp_body ip mac (of_nat k)
                (?mid, out @ map (\<lambda>j. PrintPrepopulated (of_nat j) ip mac) [0..<k])
      = (map ?W (take (Suc k) vehicles) @ drop (Suc k) vehicles,
         out @ map (\<lambda>j. PrintPrepopulated (of_nat j) ip mac) [0..<Suc k])"
    unfolding arp_body_eq [OF small] uk at_k upd by simp
  show ?case
    by (simp only: upt_Suc_append [OF le0] map_append fold_append comp_def ih step list.map fold_simps)
qed

lemma main_arp_eq:
  assumes "length vehicles = unat nVehicles"
    and "\<forall>v \<in> set vehicles. length (interfaces v) < 2 ^ 32"
  shows "main_arp nVehicles devices addresses vehicles =
     (map (\<lambda>v. v\<lparr>interfaces :=
          map (\<lambda>f. f\<lparr>GetArpCache := Some (MarkPermanent (addresses ! unat nVehicles)
                        (SetMacAddress (addresses ! unat nVehicles) (GetAddress (devices ! unat nVehicles))
                        (Add (addresses ! unat nVehicles) (SetAliveTimeout 3600 CreateObject_ArpCache))))\<rparr>)
              (interfaces v)\<rparr>) vehicles,
      map (\<lambda>j. PrintPrepopulated (of_nat j) (addresses ! unat nVehicles) (GetAddress (devices ! unat nVehicles)))
        [0..<unat nVehicles])"
proof -
  have le: "unat nVehicles \<le> length vehicles" using assms(1) by simp
  show ?thesis
    unfolding main_arp_def Let_def for_u32_from_0
      fold_arp_body [OF le unat_below_u32 assms(2)]
    using assms(1) by simp
qed

lemma Lookup_permanent:
  "arpEntries cache destination = Some \<lparr>macAddress = mac, state = PERMANENT\<rparr>
     \<Longrightarrow> ArpL3Protocol_Lookup timedOut cache destination = Resolved mac"
  by (simp add: ArpL3Protocol_Lookup_def IsExpired_def)

lemma main_sends_destination:
  assumes "e \<in> set (main_sends n ip)"
    and "call_lambda vars now (callback e) = Inr effects"
    and "SendTo sock packet flags to \<in> set effects"
  shows "GetIpv4 to = ip"
  using assms by (auto simp: main_sends_explicit call_lambda_def SendPacket_def)

text \<open>
  Claim C4. Let the containers have the sizes the library gives them: one
  \<^verbatim>\<open>Ipv4L3Protocol\<close> per vehicle, one device per node of \<open>allNodes\<close> in order, one address per
  device. Then the device at index \<open>nVehicles\<close> is the RSU's, so \<open>rsuIp\<close> and \<open>rsuMac\<close> are the
  RSU's address and MAC address, and at the end of the phase, which precedes
  \<^verbatim>\<open>Simulator::Run\<close>, every vehicle has the interfaces it had and each of them holds
  an ARP cache with alive timeout 3600 s and an entry for \<open>rsuIp\<close> that is permanent and
  carries \<open>rsuMac\<close>. The sends the program schedules are those to that same \<open>rsuIp\<close>. So
  for every scheduled send, whenever it runs, and so for a vehicle's first one, the ARP
  lookup for the destination of its \<^verbatim>\<open>SendTo\<close> call, on any interface of any vehicle and
  after any lapse of time, answers with \<open>rsuMac\<close> at once, without an ARP request.
\<close>

theorem main_arp_prepopulates_every_interface:
  assumes "length vehicles = unat nVehicles"
    and "\<forall>v \<in> set vehicles. length (interfaces v) < 2 ^ 32"
    and "map GetNode devices = allNodes nVehicles"
    and "length addresses = length devices"
  shows "GetNode (devices ! unat nVehicles) = Rsu \<and>
         unat nVehicles < length addresses \<and>
         map (\<lambda>v. length (interfaces v)) (fst (main_arp nVehicles devices addresses vehicles))
           = map (\<lambda>v. length (interfaces v)) vehicles \<and>
         (\<forall>v \<in> set (fst (main_arp nVehicles devices addresses vehicles)).
            \<forall>f \<in> set (interfaces v).
              \<exists>arp. GetArpCache f = Some arp \<and> aliveTimeout arp = 3600 \<and>
                    arpEntries arp (addresses ! unat nVehicles)
                      = Some \<lparr>macAddress = Some (GetAddress (devices ! unat nVehicles)),
                              state = PERMANENT\<rparr>) \<and>
         fst (main_arp_and_sends nVehicles devices addresses vehicles)
           = fst (main_arp nVehicles devices addresses vehicles) \<and>
         snd (main_arp_and_sends nVehicles devices addresses vehicles)
           = main_sends nVehicles (addresses ! unat nVehicles) \<and>
         (\<forall>e \<in> set (snd (main_arp_and_sends nVehicles devices addresses vehicles)).
            \<forall>vars now effects sock packet flags to.
              call_lambda vars now (callback e) = Inr effects \<and>
              SendTo sock packet flags to \<in> set effects \<longrightarrow>
              (\<forall>v \<in> set (fst (main_arp_and_sends nVehicles devices addresses vehicles)).
                 \<forall>f \<in> set (interfaces v).
                   \<exists>arp. GetArpCache f = Some arp \<and>
                     (\<forall>timedOut. ArpL3Protocol_Lookup timedOut arp (GetIpv4 to)
                        = Resolved (Some (GetAddress (devices ! unat nVehicles))))))"
proof -
  let ?ip = "addresses ! unat nVehicles"
  let ?mac = "GetAddress (devices ! unat nVehicles)"
  let ?after = "fst (main_arp nVehicles devices addresses vehicles)"
  have len: "length devices = unat nVehicles + 1"
    using arg_cong [OF assms(3), of length] by (simp add: allNodes_def)
  have "map GetNode devices ! unat nVehicles = allNodes nVehicles ! unat nVehicles"
    by (simp only: assms(3))
  then have rsu: "GetNode (devices ! unat nVehicles) = Rsu"
    using len by (simp add: allNodes_def nth_append)
  have addr: "unat nVehicles < length addresses" using len assms(4) by simp
  have caches: "map (\<lambda>v. length (interfaces v)) ?after = map (\<lambda>v. length (interfaces v)) vehicles \<and>
         (\<forall>v \<in> set ?after. \<forall>f \<in> set (interfaces v).
              \<exists>arp. GetArpCache f = Some arp \<and> aliveTimeout arp = 3600 \<and>
                    arpEntries arp ?ip = Some \<lparr>macAddress = Some ?mac, state = PERMANENT\<rparr>)"
    by (auto simp: main_arp_eq [OF assms(1,2)] built_cache comp_def)
  have both: "fst (main_arp_and_sends nVehicles devices addresses vehicles) = ?after"
    "snd (main_arp_and_sends nVehicles devices addresses vehicles) = main_sends nVehicles ?ip"
    by (simp_all add: main_arp_and_sends_def Let_def split: prod.splits)
  have resolved: "\<exists>arp. GetArpCache f = Some arp \<and>
                     (\<forall>timedOut. ArpL3Protocol_Lookup timedOut arp (GetIpv4 to) = Resolved (Some ?mac))"
    if e: "e \<in> set (main_sends nVehicles ?ip)"
      and run: "call_lambda vars now (callback e) = Inr effects"
      and send: "SendTo sock packet flags to \<in> set effects"
      and v: "v \<in> set ?after" and f: "f \<in> set (interfaces v)"
    for e vars now effects sock packet flags to v f
  proof -
    have dst: "GetIpv4 to = ?ip" by (rule main_sends_destination [OF e run send])
    obtain arp where arp: "GetArpCache f = Some arp"
      "arpEntries arp ?ip = Some \<lparr>macAddress = Some ?mac, state = PERMANENT\<rparr>"
      using caches v f by blast
    have "ArpL3Protocol_Lookup timedOut arp (GetIpv4 to) = Resolved (Some ?mac)" for timedOut
      unfolding dst by (rule Lookup_permanent [OF arp(2)])
    with arp(1) show ?thesis by blast
  qed
  show ?thesis
    unfolding both using rsu addr caches resolved by blast
qed

theorem main_arp_prepopulates_every_interface_witness:
  "fst (main_arp 2
      [\<lparr>GetNode = Vehicle 0, GetAddress = 1\<rparr>, \<lparr>GetNode = Vehicle 1, GetAddress = 2\<rparr>,
       \<lparr>GetNode = Rsu, GetAddress = 3\<rparr>]
      [167837953, 167837954, 167837955]
      [\<lparr>interfaces = [\<lparr>GetArpCache = None\<rparr>, \<lparr>GetArpCache = None\<rparr>]\<rparr>,
       \<lparr>interfaces = [\<lparr>GetArpCache = None\<rparr>, \<lparr>GetArpCache = None\<rparr>]\<rparr>])
   = [\<lparr>interfaces = [\<lparr>GetArpCache = Some (MarkPermanent 167837955 (SetMacAddress 167837955 3
                          (Add 167837955 (SetAliveTimeout 3600 CreateObject_ArpCache))))\<rparr>,
                      \<lparr>GetArpCache = Some (MarkPermanent 167837955 (SetMacAddress 167837955 3
                          (Add 167837955 (SetAliveTimeout 3600 CreateObject_ArpCache))))\<rparr>]\<rparr>,
      \<lparr>interfaces = [\<lparr>GetArpCache = Some (MarkPermanent 167837955 (SetMacAddress 167837955 3
                          (Add 167837955 (SetAliveTimeout 3600 CreateObject_ArpCache))))\<rparr>,
                      \<lparr>GetArpCache = Some (MarkPermanent 167837955 (SetMacAddress 167837955 3
                          (Add 167837955 (SetAliveTimeout 3600 CreateObject_ArpCache))))\<rparr>]\<rparr>]
   \<and> arpEntries (MarkPermanent 167837955 (SetMacAddress 167837955 3
                          (Add 167837955 (SetAliveTimeout 3600 CreateObject_ArpCache)))) 167837955
       = Some \<lparr>macAddress = Some 3, state = PERMANENT\<rparr>
   \<and> snd (main_arp_and_sends 2
      [\<lparr>GetNode = Vehicle 0, GetAddress = 1\<rparr>, \<lparr>GetNode = Vehicle 1, GetAddress = 2\<rparr>,
       \<lparr>GetNode = Rsu, GetAddress = 3\<rparr>]
      [167837953, 167837954, 167837955]
      [\<lparr>interfaces = [\<lparr>GetArpCache = None\<rparr>, \<lparr>GetArpCache = None\<rparr>]\<rparr>,
       \<lparr>interfaces = [\<lparr>GetArpCache = None\<rparr>, \<lparr>GetArpCache = None\<rparr>]\<rparr>])
       = main_sends 2 167837955
   \<and> call_lambda \<lparr>var_sock = None, var_rsuAddr = 0, var_port = 0, var_vehId = 0\<rparr> 1
        (callback (hd (main_sends 2 167837955)))
       = Inr [SendTo (UdpSocket (Vehicle 0)) \<lparr>GetSize = 100\<rparr> 0
                \<lparr>GetIpv4 = 167837955, GetPort = 5000\<rparr>,
              PrintSent 1 1 167837955 5000]
   \<and> ArpL3Protocol_Lookup True (MarkPermanent 167837955 (SetMacAddress 167837955 3
                          (Add 167837955 (SetAliveTimeout 3600 CreateObject_ArpCache)))) 167837955
       = Resolved (Some 3)
   \<and> ArpL3Protocol_Lookup False CreateObject_ArpCache 167837955 = ArpRequestSent"
proof -
  let ?devices = "[\<lparr>GetNode = Vehicle 0, GetAddress = 1\<rparr>, \<lparr>GetNode = Vehicle 1, GetAddress = 2\<rparr>,
       \<lparr>GetNode = Rsu, GetAddress = 3\<rparr>]"
  let ?addresses = "[167837953, 167837954, 167837955 :: Ipv4Address]"
  let ?vehicles = "[\<lparr>interfaces = [\<lparr>GetArpCache = None\<rparr>, \<lparr>GetArpCache = None\<rparr>]\<rparr>,
       \<lparr>interfaces = [\<lparr>GetArpCache = None\<rparr>, \<lparr>GetArpCache = None\<rparr>]\<rparr>]"
  have h1: "length ?vehicles = unat (2 :: u32)" by simp
  have h2: "\<forall>v \<in> set ?vehicles. length (interfaces v) < 2 ^ 32" by simp
  have h3: "map GetNode ?devices = allNodes 2" by (simp add: allNodes_def upt_rec)
  have h4: "length ?addresses = length ?devices" by simp
  have run: "fst (main_arp 2 ?devices ?addresses ?vehicles)
   = [\<lparr>interfaces = [\<lparr>GetArpCache = Some (MarkPermanent 167837955 (SetMacAddress 167837955 3
                          (Add 167837955 (SetAliveTimeout 3600 CreateObject_ArpCache))))\<rparr>,
                      \<lparr>GetArpCache = Some (MarkPermanent 167837955 (SetMacAddress 167837955 3
                          (Add 167837955 (SetAliveTimeout 3600 CreateObject_ArpCache))))\<rparr>]\<rparr>,
      \<lparr>interfaces = [\<lparr>GetArpCache = Some (MarkPermanent 167837955 (SetMacAddress 167837955 3
                          (Add 167837955 (SetAliveTimeout 3600 CreateObject_ArpCache))))\<rparr>,
                      \<lparr>GetArpCache = Some (MarkPermanent 167837955 (SetMacAddress 167837955 3
                          (Add 167837955 (SetAliveTimeout 3600 CreateObject_ArpCache))))\<rparr>]\<rparr>]"
    by (simp add: main_arp_def arp_body_def GetNInterfaces_def for_u32.simps Let_def)
  have sends: "snd (main_arp_and_sends 2 ?devices ?addresses ?vehicles) = main_sends 2 167837955"
    by (simp add: main_arp_and_sends_def Let_def split: prod.splits)
  have first: "call_lambda \<lparr>var_sock = None, var_rsuAddr = 0, var_port = 0, var_vehId = 0\<rparr> 1
        (callback (hd (main_sends 2 167837955)))
       = Inr [SendTo (UdpSocket (Vehicle 0)) \<lparr>GetSize = 100\<rparr> 0
                \<lparr>GetIpv4 = 167837955, GetPort = 5000\<rparr>,
              PrintSent 1 1 167837955 5000]"
    by (simp add: main_sends_2 call_lambda_def SendPacket_def)
  have looked: "ArpL3Protocol_Lookup True (MarkPermanent 167837955 (SetMacAddress 167837955 3
                          (Add 167837955 (SetAliveTimeout 3600 CreateObject_ArpCache)))) 167837955
       = Resolved (Some 3)"
    and fresh: "ArpL3Protocol_Lookup False CreateObject_ArpCache 167837955 = ArpRequestSent"
    by (simp_all add: ArpL3Protocol_Lookup_def IsExpired_def MarkPermanent_def SetMacAddress_def
          Add_def SetAliveTimeout_def CreateObject_ArpCache_def)
  have cache: "arpEntries (MarkPermanent 167837955 (SetMacAddress 167837955 3
                          (Add 167837955 (SetAliveTimeout 3600 CreateObject_ArpCache)))) 167837955
       = Some \<lparr>macAddress = Some 3, state = PERMANENT\<rparr>"
    using main_arp_prepopulates_every_interface [OF h1 h2 h3 h4]
    by (simp add: run)
  show ?thesis
    using run sends first looked fresh cache by blast
qed


section \<open>The queue discs\<close>

lemma select_body_eq:
  "select_body devices i (acc, out) =
     (if tc_aggregated (devices ! unat i) \<and> rootQueueDisc (devices ! unat i) \<noteq> None
      then (acc, out @ [PrintSkipping i]) else (acc @ [i], out))"
  by (simp add: select_body_def Let_def)

lemma fold_select_body:
  assumes "\<forall>k \<in> set ks. k < 2 ^ 32"
  shows "fold (select_body devices) (map of_nat ks) (acc, out) =
     (acc @ map of_nat (filter (\<lambda>k. \<not> (tc_aggregated (devices ! k) \<and> rootQueueDisc (devices ! k) \<noteq> None)) ks),
      out @ map (\<lambda>k. PrintSkipping (of_nat k))
              (filter (\<lambda>k. tc_aggregated (devices ! k) \<and> rootQueueDisc (devices ! k) \<noteq> None) ks))"
  using assms
proof (induction ks arbitrary: acc out)
  case Nil
  then show ?case by simp
next
  case (Cons k ks)
  have uk: "unat (of_nat k :: u32) = k" using Cons.prems by (simp add: unat_of_nat)
  have rest: "\<forall>k \<in> set ks. k < 2 ^ 32" using Cons.prems by simp
  show ?case
    by (simp add: select_body_eq uk Cons.IH [OF rest])
qed

lemma select_devices_eq:
  assumes "length devices < 2 ^ 32"
  shows "select_devices devices =
     (map of_nat (filter (\<lambda>k. \<not> (tc_aggregated (devices ! k) \<and> rootQueueDisc (devices ! k) \<noteq> None))
                    [0..<length devices]),
      map (\<lambda>k. PrintSkipping (of_nat k))
          (filter (\<lambda>k. tc_aggregated (devices ! k) \<and> rootQueueDisc (devices ! k) \<noteq> None)
                    [0..<length devices]))"
proof -
  have n: "unat (GetN devices) = length devices"
    using assms by (simp add: GetN_def unat_of_nat)
  have small: "\<forall>k \<in> set [0..<length devices]. k < 2 ^ 32" using assms by auto
  show ?thesis
    unfolding select_devices_def for_u32_from_0 n fold_select_body [OF small] by simp
qed

lemma tch_Install_fresh:
  assumes "distinct ks"
    and "\<forall>k \<in> set ks. k < length devices \<and> k < 2 ^ 32 \<and>
            tc_aggregated (devices ! k) \<and> rootQueueDisc (devices ! k) = None"
  shows "tch_Install q (map of_nat ks) devices =
     Inr (map (\<lambda>j. if j \<in> set ks then (devices ! j)\<lparr>rootQueueDisc := Some q\<rparr> else devices ! j)
            [0..<length devices])"
  using assms
proof (induction ks arbitrary: devices)
  case Nil
  then show ?case by (simp add: map_nth)
next
  case (Cons k ks)
  let ?d = "devices[k := (devices ! k)\<lparr>rootQueueDisc := Some q\<rparr>]"
  have uk: "unat (of_nat k :: u32) = k" using Cons.prems by (simp add: unat_of_nat)
  have k: "k < length devices" "tc_aggregated (devices ! k)" "rootQueueDisc (devices ! k) = None"
    "k \<notin> set ks" "distinct ks"
    using Cons.prems by simp_all
  have rest: "\<forall>j \<in> set ks. j < length ?d \<and> j < 2 ^ 32 \<and>
            tc_aggregated (?d ! j) \<and> rootQueueDisc (?d ! j) = None"
  proof
    fix j assume j: "j \<in> set ks"
    then have "j \<noteq> k" using k(4) by auto
    then have "?d ! j = devices ! j" by simp
    then show "j < length ?d \<and> j < 2 ^ 32 \<and> tc_aggregated (?d ! j) \<and> rootQueueDisc (?d ! j) = None"
      using Cons.prems(2) j by simp
  qed
  have "tch_Install q (map of_nat (k # ks)) devices = tch_Install q (map of_nat ks) ?d"
    using k by (simp add: uk Let_def)
  also have "\<dots> = Inr (map (\<lambda>j. if j \<in> set ks then (?d ! j)\<lparr>rootQueueDisc := Some q\<rparr> else ?d ! j)
            [0..<length ?d])"
    by (rule Cons.IH [OF k(5) rest])
  also have "map (\<lambda>j. if j \<in> set ks then (?d ! j)\<lparr>rootQueueDisc := Some q\<rparr> else ?d ! j)
            [0..<length ?d] =
       map (\<lambda>j. if j \<in> set (k # ks) then (devices ! j)\<lparr>rootQueueDisc := Some q\<rparr> else devices ! j)
            [0..<length devices]"
    using k by (auto simp: nth_list_update)
  finally show ?case .
qed

text \<open>
  Claim C8. Let the container hold fewer than \<open>2^32\<close> devices, each on a node with a
  traffic-control layer (line 138 installs the internet stack on all nodes). Then the
  phase ends without a failed assertion or fatal error; the devices handed to
  \<^verbatim>\<open>tch.Install\<close> are each handed once, and device \<open>k\<close> is among them if and only if it had no
  root queue disc; afterwards a device that had a root queue disc is unchanged, a device
  that had none has the configured \<^verbatim>\<open>ns3::PfifoFastQueueDisc\<close>, and so every device has
  one.
\<close>

theorem main_traffic_control_one_root_each:
  assumes "length devices < 2 ^ 32" and "\<forall>d \<in> set devices. tc_aggregated d"
  shows "\<exists>devices' out.
      main_traffic_control devices = Inr (devices', out) \<and>
      length devices' = length devices \<and>
      distinct (fst (select_devices devices)) \<and>
      (\<forall>k < length devices.
         (of_nat k \<in> set (fst (select_devices devices)) \<longleftrightarrow> rootQueueDisc (devices ! k) = None) \<and>
         devices' ! k = (if rootQueueDisc (devices ! k) = None
                         then (devices ! k)\<lparr>rootQueueDisc := Some ''ns3::PfifoFastQueueDisc''\<rparr>
                         else devices ! k) \<and>
         rootQueueDisc (devices' ! k) \<noteq> None)"
proof -
  let ?N = "length devices"
  let ?q = "''ns3::PfifoFastQueueDisc''"
  let ?ks = "filter (\<lambda>k. rootQueueDisc (devices ! k) = None) [0..<?N]"
  let ?skip = "map (\<lambda>k. PrintSkipping (of_nat k))
          (filter (\<lambda>k. tc_aggregated (devices ! k) \<and> rootQueueDisc (devices ! k) \<noteq> None) [0..<?N])"
  have tc: "tc_aggregated (devices ! k)" if "k < ?N" for k
    using assms(2) that by simp
  have "filter (\<lambda>k. \<not> (tc_aggregated (devices ! k) \<and> rootQueueDisc (devices ! k) \<noteq> None)) [0..<?N] = ?ks"
    by (rule filter_cong) (auto simp: tc)
  then have sel: "select_devices devices = (map of_nat ?ks, ?skip)"
    by (simp only: select_devices_eq [OF assms(1)])
  have small: "k < 2 ^ 32" if "k \<in> set ?ks" for k
    using that assms(1) by auto
  have inj: "inj_on (of_nat :: nat \<Rightarrow> u32) (set ?ks)"
    by (rule inj_onI) (metis small unat_of_nat_u32)
  have dist: "distinct (map of_nat ?ks :: u32 list)"
    using inj by (simp add: distinct_map)
  have mem: "(of_nat k :: u32) \<in> set (map of_nat ?ks) \<longleftrightarrow> rootQueueDisc (devices ! k) = None"
    if "k < ?N" for k
  proof
    assume "(of_nat k :: u32) \<in> set (map of_nat ?ks)"
    then obtain j where j: "j \<in> set ?ks" "(of_nat k :: u32) = of_nat j" by auto
    have "k < 2 ^ 32" using that assms(1) by simp
    then have "k = j" using j small [OF j(1)] by (metis unat_of_nat_u32)
    then show "rootQueueDisc (devices ! k) = None" using j(1) by simp
  next
    assume "rootQueueDisc (devices ! k) = None"
    then have "k \<in> set ?ks" using that by simp
    then have "(of_nat k :: u32) \<in> of_nat ` set ?ks" by (rule imageI)
    then show "(of_nat k :: u32) \<in> set (map of_nat ?ks)" by (simp only: set_map)
  qed
  have len_ks: "length ?ks < 2 ^ 32"
    using length_filter_le [of "\<lambda>k. rootQueueDisc (devices ! k) = None" "[0..<?N]"] assms(1) by simp
  have getn: "GetN (map of_nat ?ks :: u32 list) > 0 \<longleftrightarrow> ?ks \<noteq> []"
  proof -
    have "unat (GetN (map of_nat ?ks :: u32 list)) = length ?ks"
      using len_ks by (simp add: GetN_def unat_of_nat)
    then show ?thesis by (simp add: word_less_nat_alt)
  qed
  show ?thesis
  proof (cases "?ks = []")
    case True
    then have all: "rootQueueDisc (devices ! k) \<noteq> None" if "k < ?N" for k
      using that by (auto simp: filter_empty_conv)
    have "main_traffic_control devices = Inr (devices, ?skip @ [PrintNoneRequired])"
      using getn True by (simp add: main_traffic_control_def sel)
    then show ?thesis
      using all dist mem by (simp add: sel)
  next
    case False
    let ?d' = "map (\<lambda>j. if j \<in> set ?ks then (devices ! j)\<lparr>rootQueueDisc := Some ?q\<rparr> else devices ! j)
            [0..<?N]"
    have pre: "\<forall>k \<in> set ?ks. k < ?N \<and> k < 2 ^ 32 \<and> tc_aggregated (devices ! k) \<and>
                  rootQueueDisc (devices ! k) = None"
      using assms(1) tc by auto
    have inst: "tch_Install ?q (map of_nat ?ks) devices = Inr ?d'"
      by (rule tch_Install_fresh [OF _ pre]) simp
    have run: "main_traffic_control devices =
        Inr (?d', ?skip @ [PrintInstalled (GetN (map of_nat ?ks :: u32 list))])"
      using getn False by (simp add: main_traffic_control_def sel inst)
    have each: "?d' ! k = (if rootQueueDisc (devices ! k) = None
                         then (devices ! k)\<lparr>rootQueueDisc := Some ?q\<rparr>
                         else devices ! k) \<and> rootQueueDisc (?d' ! k) \<noteq> None"
      if "k < ?N" for k
      using that by auto
    show ?thesis
      using run dist mem each by (simp add: sel)
  qed
qed

theorem main_traffic_control_one_root_each_witness:
  "main_traffic_control
     [\<lparr>tc_aggregated = True, rootQueueDisc = Some ''ns3::FqCoDelQueueDisc''\<rparr>,
      \<lparr>tc_aggregated = True, rootQueueDisc = None\<rparr>,
      \<lparr>tc_aggregated = True, rootQueueDisc = None\<rparr>]
   = Inr ([\<lparr>tc_aggregated = True, rootQueueDisc = Some ''ns3::FqCoDelQueueDisc''\<rparr>,
           \<lparr>tc_aggregated = True, rootQueueDisc = Some ''ns3::PfifoFastQueueDisc''\<rparr>,
           \<lparr>tc_aggregated = True, rootQueueDisc = Some ''ns3::PfifoFastQueueDisc''\<rparr>],
          [PrintSkipping 0, PrintInstalled 2])
   \<and> fst (select_devices
     [\<lparr>tc_aggregated = True, rootQueueDisc = Some ''ns3::FqCoDelQueueDisc''\<rparr>,
      \<lparr>tc_aggregated = True, rootQueueDisc = None\<rparr>,
      \<lparr>tc_aggregated = True, rootQueueDisc = None\<rparr>]) = [1, 2]"
proof -
  let ?devices = "[\<lparr>tc_aggregated = True, rootQueueDisc = Some ''ns3::FqCoDelQueueDisc''\<rparr>,
      \<lparr>tc_aggregated = True, rootQueueDisc = None\<rparr>,
      \<lparr>tc_aggregated = True, rootQueueDisc = None\<rparr>]"
  have h1: "length ?devices < 2 ^ 32" by simp
  have h2: "\<forall>d \<in> set ?devices. tc_aggregated d" by simp
  have sel: "select_devices ?devices = ([1, 2], [PrintSkipping 0])"
    by (simp add: select_devices_def select_body_def GetN_def for_u32.simps Let_def)
  have run: "main_traffic_control ?devices
     = Inr ([\<lparr>tc_aggregated = True, rootQueueDisc = Some ''ns3::FqCoDelQueueDisc''\<rparr>,
           \<lparr>tc_aggregated = True, rootQueueDisc = Some ''ns3::PfifoFastQueueDisc''\<rparr>,
           \<lparr>tc_aggregated = True, rootQueueDisc = Some ''ns3::PfifoFastQueueDisc''\<rparr>],
          [PrintSkipping 0, PrintInstalled 2])"
    by (simp add: main_traffic_control_def sel GetN_def Let_def)
  show ?thesis
    using main_traffic_control_one_root_each [OF h1 h2] by (simp add: run sel)
qed

section \<open>The flow monitor\<close>

text \<open>
  Claim C9. Let \<^verbatim>\<open>InstallAll\<close> return a monitor, as ns-3's does. Then the call
  \<^verbatim>\<open>SerializeToXmlFile("v2x-sim-final-flowmon.xml", true, true)\<close> is made after
  \<^verbatim>\<open>Simulator::Run\<close> if and only if \<open>enableFlowMonitor\<close> is true, and no other file is ever
  serialized; \<^verbatim>\<open>InstallAll\<close> is called, before \<^verbatim>\<open>Simulator::Run\<close>, if and only if the flag is
  true, and never after it; the run itself always takes place.
\<close>

theorem main_writes_flowmon_xml_iff_enabled:
  assumes "installAll = Some m"
  shows "let calls = main_trace_and_run enablePcap enableFlowMonitor simTime installAll;
             before_run = takeWhile (\<lambda>c. c \<noteq> Simulator_Run) calls;
             after_run = dropWhile (\<lambda>c. c \<noteq> Simulator_Run) calls
         in (SerializeToXmlFile ''v2x-sim-final-flowmon.xml'' True True \<in> set after_run
               \<longleftrightarrow> enableFlowMonitor) \<and>
            (\<forall>f a b. SerializeToXmlFile f a b \<in> set calls \<longrightarrow>
               f = ''v2x-sim-final-flowmon.xml'' \<and> a \<and> b \<and>
               SerializeToXmlFile f a b \<notin> set before_run) \<and>
            (InstallAll \<in> set before_run \<longleftrightarrow> enableFlowMonitor) \<and>
            InstallAll \<notin> set after_run \<and>
            Simulator_Run \<in> set calls"
  using assms by (cases enablePcap; cases enableFlowMonitor) (simp_all add: main_trace_and_run_def)

theorem main_writes_flowmon_xml_iff_enabled_witness:
  "main_trace_and_run True True 12 (Some FlowMonitorObject) =
     [EnablePcapAll ''v2x-sim-final'' True, CreateFileStream ''v2x-sim-final.tr'', EnableAsciiAll,
      InstallAll, Simulator_Stop 12, Simulator_Run, CheckForLostPackets,
      SerializeToXmlFile ''v2x-sim-final-flowmon.xml'' True True, Simulator_Destroy]
   \<and> SerializeToXmlFile ''v2x-sim-final-flowmon.xml'' True True
        \<in> set (dropWhile (\<lambda>c. c \<noteq> Simulator_Run) (main_trace_and_run True True 12 (Some FlowMonitorObject)))
   \<and> SerializeToXmlFile ''v2x-sim-final-flowmon.xml'' True True
        \<notin> set (dropWhile (\<lambda>c. c \<noteq> Simulator_Run) (main_trace_and_run True False 12 (Some FlowMonitorObject)))"
  using main_writes_flowmon_xml_iff_enabled [of "Some FlowMonitorObject" FlowMonitorObject True True 12]
    main_writes_flowmon_xml_iff_enabled [of "Some FlowMonitorObject" FlowMonitorObject True False 12]
  by (simp add: main_trace_and_run_def)

chapter \<open>Properties of the kernel of the specification\<close>

section \<open>EventQueue: dispatch order\<close>

lemma before_trans: "before a b \<Longrightarrow> before b c \<Longrightarrow> before a c"
  by (auto simp: before_def)

lemma before_total: "\<not> before a b \<Longrightarrow> sequence a \<noteq> sequence b \<Longrightarrow> before b a"
  by (auto simp: before_def)

lemma before_time: "before a b \<Longrightarrow> scheduledTime a \<le> scheduledTime b"
  by (auto simp: before_def)

lemma set_insert_event: "set (insert_event e xs) = insert e (set xs)"
  by (induction xs) auto

lemma length_insert_event: "length (insert_event e xs) = Suc (length xs)"
  by (induction xs) auto

lemma sorted_insert_event:
  "sorted_wrt before xs \<Longrightarrow> \<forall>x \<in> set xs. sequence x \<noteq> sequence e
     \<Longrightarrow> sorted_wrt before (insert_event e xs)"
proof (induction xs)
  case Nil
  then show ?case by simp
next
  case (Cons x xs)
  show ?case
  proof (cases "before e x")
    case True
    then have "\<forall>y \<in> set xs. before e y"
      using Cons.prems(1) by (auto intro: before_trans)
    then show ?thesis using True Cons.prems(1) by simp
  next
    case False
    then have "before x e" using Cons.prems(2) by (simp add: before_total)
    then show ?thesis
      using False Cons by (simp add: set_insert_event)
  qed
qed

lemma schedule_inv:
  assumes "schedule t a q = Inr (h, q')" and "queue_inv stop q ds"
  shows "queue_inv stop q' ds \<and> nowPointer q' = nowPointer q"
proof -
  let ?e = "\<lparr>scheduledTime = t, sequence = nextSequence q, action = a\<rparr>"
  have t: "nowPointer q \<le> t" and q': "q' = q\<lparr>nextSequence := nextSequence q + 1,
                  events := insert_event ?e (events q)\<rparr>"
    using assms(1) by (auto simp: schedule_def split: if_splits)
  have fresh: "\<forall>x \<in> set (events q). sequence x \<noteq> sequence ?e"
    using assms(2) by (auto simp: queue_inv_def)
  have sorted: "sorted_wrt before (insert_event ?e (events q))"
    using assms(2) fresh by (intro sorted_insert_event) (simp_all add: queue_inv_def)
  have "before d ?e" if "d \<in> set ds" for d
    using assms(2) that t by (auto simp: queue_inv_def before_def)
  then show ?thesis
    using assms(2) t sorted unfolding q' queue_inv_def
    by (auto simp: set_insert_event)
qed

lemma schedule_all_inv:
  "queue_inv stop q ds \<Longrightarrow>
     queue_inv stop (schedule_all calls q) ds \<and> nowPointer (schedule_all calls q) = nowPointer q"
proof (induction calls arbitrary: q)
  case Nil
  then show ?case by simp
next
  case (Cons c calls)
  obtain t a where c: "c = (t, a)" by (cases c)
  show ?case
  proof (cases "schedule t a q")
    case (Inl err)
    then show ?thesis using Cons c by simp
  next
    case (Inr r)
    obtain h q' where r: "r = (h, q')" by (cases r)
    have "queue_inv stop q' ds \<and> nowPointer q' = nowPointer q"
      using schedule_inv [OF _ Cons.prems] Inr r by simp
    then show ?thesis using Cons.IH [of q'] Inr r c by simp
  qed
qed

lemma schedule_keeps: "schedule t a q = Inr (h, q') \<Longrightarrow> set (events q) \<subseteq> set (events q')"
  by (auto simp: schedule_def set_insert_event split: if_splits)

lemma schedule_all_keeps: "set (events q) \<subseteq> set (events (schedule_all calls q))"
proof (induction calls arbitrary: q)
  case Nil
  then show ?case by simp
next
  case (Cons c calls)
  obtain t a where c: "c = (t, a)" by (cases c)
  show ?case
  proof (cases "schedule t a q")
    case (Inl err)
    then show ?thesis using Cons c by simp
  next
    case (Inr r)
    obtain h q' where r: "r = (h, q')" by (cases r)
    have "set (events q) \<subseteq> set (events q')" using schedule_keeps Inr r by metis
    then show ?thesis using Cons.IH [of q'] Inr r c by auto
  qed
qed

lemma dispatch_inv:
  assumes "queue_inv stop q ds" and "events q = e # rest" and "scheduledTime e \<le> stop"
  shows "queue_inv stop (fst (dispatch run e (q, w))) (ds @ [e])"
    and "set rest \<subseteq> set (events (fst (dispatch run e (q, w))))"
proof -
  let ?q1 = "q\<lparr>nowPointer := scheduledTime e, events := rest\<rparr>"
  obtain calls w' where r: "run (action e) (scheduledTime e) w = (calls, w')"
    by (cases "run (action e) (scheduledTime e) w")
  have d: "fst (dispatch run e (q, w)) = schedule_all calls ?q1"
    by (simp add: dispatch_def assms(2) r)
  have "queue_inv stop ?q1 (ds @ [e])"
    using assms unfolding queue_inv_def
    by (auto simp: sorted_wrt_append dest: before_time)
  then show "queue_inv stop (fst (dispatch run e (q, w))) (ds @ [e])"
    using schedule_all_inv d by metis
  show "set rest \<subseteq> set (events (fst (dispatch run e (q, w))))"
    using schedule_all_keeps [of ?q1 calls] d by simp
qed

lemma runUntil_inv:
  assumes "runUntil fuel run stop (q, w) ds = (returned, st', ds')"
    and "queue_inv stop q ds"
  shows "queue_inv stop (fst st') ds' \<and>
         (returned \<longrightarrow> (\<forall>e \<in> set (events (fst st')). stop < scheduledTime e)) \<and>
         (\<forall>e \<in> set (events q) \<union> set ds. e \<in> set ds' \<or> e \<in> set (events (fst st')))"
  using assms
proof (induction fuel arbitrary: q w ds)
  case 0
  show ?case
  proof (cases "events q")
    case Nil
    then show ?thesis using 0 by (auto simp: runUntil.simps)
  next
    case (Cons e rest)
    show ?thesis
    proof (cases "scheduledTime e \<le> stop")
      case True
      then show ?thesis using 0 Cons by (auto simp: runUntil.simps)
    next
      case False
      have "\<forall>x \<in> set rest. before e x" using "0.prems"(2) Cons by (simp add: queue_inv_def)
      then have "\<forall>x \<in> set (events q). stop < scheduledTime x"
        using False Cons by (fastforce dest: before_time)
      then show ?thesis using 0 Cons False by (auto simp: runUntil.simps)
    qed
  qed
next
  case (Suc fuel)
  show ?case
  proof (cases "events q")
    case Nil
    then show ?thesis using Suc.prems by (auto simp: runUntil.simps)
  next
    case (Cons e rest)
    show ?thesis
    proof (cases "scheduledTime e \<le> stop")
      case True
      obtain q1 w1 where d: "dispatch run e (q, w) = (q1, w1)" by (cases "dispatch run e (q, w)")
      have run: "runUntil fuel run stop (q1, w1) (ds @ [e]) = (returned, st', ds')"
        using Suc.prems(1) Cons True d by (simp add: runUntil.simps [of "Suc fuel"])
      have inv1: "queue_inv stop q1 (ds @ [e])" and keep: "set rest \<subseteq> set (events q1)"
        using dispatch_inv [OF Suc.prems(2) Cons True, of run w] d by simp_all
      note ih = Suc.IH [OF run inv1]
      have "\<forall>x \<in> set (events q) \<union> set ds. x \<in> set ds' \<or> x \<in> set (events (fst st'))"
        using ih keep Cons by auto
      then show ?thesis using ih by simp
    next
      case False
      have "\<forall>x \<in> set rest. before e x" using Suc.prems(2) Cons by (simp add: queue_inv_def)
      then have "\<forall>x \<in> set (events q). stop < scheduledTime x"
        using False Cons by (fastforce dest: before_time)
      then show ?thesis using Suc.prems Cons False by (auto simp: runUntil.simps)
    qed
  qed
qed

lemma schedule_all_events:
  assumes "\<forall>r \<in> set reqs. nowPointer q \<le> fst r"
  shows "set (events (schedule_all reqs q)) =
           set (events q) \<union>
           (\<lambda>i. \<lparr>scheduledTime = fst (reqs ! i), sequence = nextSequence q + i,
                  action = snd (reqs ! i)\<rparr>) ` {..<length reqs}
         \<and> length (events (schedule_all reqs q)) = length (events q) + length reqs"
  using assms
proof (induction reqs arbitrary: q)
  case Nil
  then show ?case by simp
next
  case (Cons r reqs)
  obtain t a where r: "r = (t, a)" by (cases r)
  let ?e = "\<lparr>scheduledTime = t, sequence = nextSequence q, action = a\<rparr>"
  let ?q1 = "q\<lparr>nextSequence := nextSequence q + 1, events := insert_event ?e (events q)\<rparr>"
  have ok: "schedule t a q = Inr (nextSequence q, ?q1)"
    using Cons.prems r by (simp add: schedule_def)
  have rest: "\<forall>r \<in> set reqs. nowPointer ?q1 \<le> fst r" using Cons.prems by simp
  note ih = Cons.IH [OF rest]
  have shift: "(\<lambda>i. \<lparr>scheduledTime = fst ((r # reqs) ! i), sequence = nextSequence q + i,
                  action = snd ((r # reqs) ! i)\<rparr>) ` {..<length (r # reqs)}
      = insert ?e ((\<lambda>i. \<lparr>scheduledTime = fst (reqs ! i), sequence = nextSequence ?q1 + i,
                  action = snd (reqs ! i)\<rparr>) ` {..<length reqs})"
    by (simp add: lessThan_Suc_eq_insert_0 image_image r)
  have "schedule_all (r # reqs) q = schedule_all reqs ?q1"
    using ok r by simp
  then show ?case
    using ih unfolding shift by (simp add: set_insert_event length_insert_event)
qed

lemma dispatch_inert:
  assumes "\<forall>a t w. fst (run a t w) = []"
  shows "fst (dispatch run e (q, w)) = q\<lparr>nowPointer := scheduledTime e, events := tl (events q)\<rparr>"
proof -
  obtain calls w' where r: "run (action e) (scheduledTime e) w = (calls, w')"
    by (cases "run (action e) (scheduledTime e) w")
  then have "calls = []" using assms by (metis fst_conv)
  then show ?thesis by (simp add: dispatch_def r)
qed

lemma runUntil_inert:
  assumes inert: "\<forall>a t w. fst (run a t w) = []"
    and "length (events q) \<le> fuel"
    and "runUntil fuel run stop (q, w) ds = (returned, st', ds')"
  shows "returned \<and> set ds' \<subseteq> set ds \<union> set (events q)"
  using assms(2,3)
proof (induction fuel arbitrary: q w ds)
  case 0
  then show ?case by (auto simp: runUntil.simps)
next
  case (Suc fuel)
  show ?case
  proof (cases "events q")
    case Nil
    then show ?thesis using Suc.prems by (auto simp: runUntil.simps)
  next
    case (Cons e rest)
    show ?thesis
    proof (cases "scheduledTime e \<le> stop")
      case True
      obtain q1 w1 where d: "dispatch run e (q, w) = (q1, w1)" by (cases "dispatch run e (q, w)")
      have q1: "q1 = q\<lparr>nowPointer := scheduledTime e, events := rest\<rparr>"
        using dispatch_inert [OF inert, of e q w] d Cons by simp
      have run: "runUntil fuel run stop (q1, w1) (ds @ [e]) = (returned, st', ds')"
        using Suc.prems(2) Cons True d by (simp add: runUntil.simps [of "Suc fuel"])
      have "length (events q1) \<le> fuel" using Suc.prems(1) Cons q1 by simp
      from Suc.IH [OF this run] show ?thesis using q1 Cons by auto
    next
      case False
      then show ?thesis using Suc.prems Cons by (auto simp: runUntil.simps)
    qed
  qed
qed


text \<open>
  Claim C3. Let the driver schedule a sequence of events \<open>reqs\<close>, none of them in the past,
  on a new queue, so that the \<open>i\<close>-th gets the sequence number \<open>i\<close>, and let \<^verbatim>\<open>runUntil\<close> run
  for any number of dispatches, with actions that may schedule further events. Then the
  events dispatched so far are in key order: in non-decreasing time order and, among equal
  times, in the order of their sequence numbers, which is the order in which they were
  scheduled; and none is later than the stop time. If \<^verbatim>\<open>runUntil\<close> has returned, every scheduled
  event whose time is at most the stop time has been dispatched, and every event still
  pending is later than the stop time. If the actions schedule nothing, \<^verbatim>\<open>runUntil\<close> returns
  within as many dispatches as there are events and has dispatched scheduled events only:
  the dispatch sequence is the one list in key order of the events at or before the stop
  time, the same at every replay of the input.
\<close>

theorem runUntil_dispatch_order:
  assumes "\<forall>r \<in> set reqs. 0 \<le> fst r"
    and "runUntil fuel run stopTime (schedule_all reqs newEventQueue, w) [] = (returned, st', dispatched)"
  shows "sorted_wrt before dispatched \<and>
         (\<forall>e \<in> set dispatched. scheduledTime e \<le> stopTime) \<and>
         (returned \<longrightarrow>
            (\<forall>i < length reqs. fst (reqs ! i) \<le> stopTime \<longrightarrow>
               \<lparr>scheduledTime = fst (reqs ! i), sequence = i, action = snd (reqs ! i)\<rparr>
                 \<in> set dispatched) \<and>
            (\<forall>e \<in> set (events (fst st')). stopTime < scheduledTime e)) \<and>
         ((\<forall>a t w. fst (run a t w) = []) \<and> length reqs \<le> fuel \<longrightarrow>
            returned \<and>
            (\<forall>e \<in> set dispatched. \<exists>i < length reqs.
               e = \<lparr>scheduledTime = fst (reqs ! i), sequence = i, action = snd (reqs ! i)\<rparr>))"
proof -
  let ?q0 = "schedule_all reqs (newEventQueue :: 'a EventQueue)"
  have "queue_inv stopTime (newEventQueue :: 'a EventQueue) []"
    by (simp add: queue_inv_def newEventQueue_def)
  then have inv0: "queue_inv stopTime ?q0 []"
    using schedule_all_inv by blast
  have "\<forall>r \<in> set reqs. nowPointer (newEventQueue :: 'a EventQueue) \<le> fst r"
    using assms(1) by (simp add: newEventQueue_def)
  from schedule_all_events [OF this]
  have ev0: "set (events ?q0) =
           (\<lambda>i. \<lparr>scheduledTime = fst (reqs ! i), sequence = i, action = snd (reqs ! i)\<rparr>)
             ` {..<length reqs}"
    and len0: "length (events ?q0) = length reqs"
    by (simp_all add: newEventQueue_def)
  note fin = runUntil_inv [OF assms(2) inv0]
  have sorted: "sorted_wrt before dispatched"
    and bound: "\<forall>e \<in> set dispatched. scheduledTime e \<le> stopTime"
    using fin by (simp_all add: queue_inv_def)
  have later: "returned \<longrightarrow> (\<forall>e \<in> set (events (fst st')). stopTime < scheduledTime e)"
    using fin by simp
  have all: "returned \<longrightarrow> (\<forall>i < length reqs. fst (reqs ! i) \<le> stopTime \<longrightarrow>
               \<lparr>scheduledTime = fst (reqs ! i), sequence = i, action = snd (reqs ! i)\<rparr>
                 \<in> set dispatched)"
  proof (intro impI allI)
    fix i assume ret: returned and i: "i < length reqs" and t: "fst (reqs ! i) \<le> stopTime"
    let ?e = "\<lparr>scheduledTime = fst (reqs ! i), sequence = i, action = snd (reqs ! i)\<rparr>"
    have "?e \<in> set (events ?q0)" using i unfolding ev0 by blast
    then have "?e \<in> set dispatched \<or> ?e \<in> set (events (fst st'))" using fin by blast
    moreover have "?e \<notin> set (events (fst st'))"
    proof
      assume "?e \<in> set (events (fst st'))"
      then have "stopTime < scheduledTime ?e" using later ret by blast
      then show False using t by simp
    qed
    ultimately show "?e \<in> set dispatched" by blast
  qed
  have inert: "returned \<and>
            (\<forall>e \<in> set dispatched. \<exists>i < length reqs.
               e = \<lparr>scheduledTime = fst (reqs ! i), sequence = i, action = snd (reqs ! i)\<rparr>)"
    if h: "(\<forall>a t w. fst (run a t w) = []) \<and> length reqs \<le> fuel"
  proof -
    have r: "\<forall>a t w. fst (run a t w) = []" using h by blast
    have "length (events ?q0) \<le> fuel" using h len0 by simp
    from runUntil_inert [OF r this assms(2)]
    have "returned" and "set dispatched \<subseteq> set (events ?q0)" by simp_all
    then show ?thesis unfolding ev0 by auto
  qed
  show ?thesis using sorted bound later all inert by blast
qed

theorem runUntil_dispatch_order_witness:
  "runUntil 4 (\<lambda>a t w. ([], w)) 2
     (schedule_all [(2, 0 :: nat), (1, 1), (2, 2), (5, 3)] newEventQueue, ()) []
   = (True,
      (\<lparr>nowPointer = 2, nextSequence = 4,
        events = [\<lparr>scheduledTime = 5, sequence = 3, action = 3\<rparr>]\<rparr>, ()),
      [\<lparr>scheduledTime = 1, sequence = 1, action = 1\<rparr>,
       \<lparr>scheduledTime = 2, sequence = 0, action = 0\<rparr>,
       \<lparr>scheduledTime = 2, sequence = 2, action = 2\<rparr>])
   \<and> sorted_wrt before
      [\<lparr>scheduledTime = 1, sequence = 1, action = 1 :: nat\<rparr>,
       \<lparr>scheduledTime = 2, sequence = 0, action = 0\<rparr>,
       \<lparr>scheduledTime = 2, sequence = 2, action = 2\<rparr>]
   \<and> runUntil 5 (\<lambda>a t w. (if a = 1 then [(t + 1, 7), (0, 8)] else [], w)) 3
     (schedule_all [(2, 0 :: nat), (1, 1), (2, 2)] newEventQueue, ()) []
   = (True,
      (\<lparr>nowPointer = 2, nextSequence = 4, events = []\<rparr>, ()),
      [\<lparr>scheduledTime = 1, sequence = 1, action = 1\<rparr>,
       \<lparr>scheduledTime = 2, sequence = 0, action = 0\<rparr>,
       \<lparr>scheduledTime = 2, sequence = 2, action = 2\<rparr>,
       \<lparr>scheduledTime = 2, sequence = 3, action = 7\<rparr>])
   \<and> sorted_wrt before
      [\<lparr>scheduledTime = 1, sequence = 1, action = 1 :: nat\<rparr>,
       \<lparr>scheduledTime = 2, sequence = 0, action = 0\<rparr>,
       \<lparr>scheduledTime = 2, sequence = 2, action = 2\<rparr>,
       \<lparr>scheduledTime = 2, sequence = 3, action = 7\<rparr>]"
proof -
  let ?plain = "[(2, 0 :: nat), (1, 1), (2, 2), (5, 3)] :: (real \<times> nat) list"
  let ?nested = "[(2, 0 :: nat), (1, 1), (2, 2)] :: (real \<times> nat) list"
  have p1: "\<forall>r \<in> set ?plain. 0 \<le> fst r" by simp
  have p2: "\<forall>r \<in> set ?nested. 0 \<le> fst r" by simp
  have q1: "schedule_all ?plain newEventQueue =
      \<lparr>nowPointer = 0, nextSequence = 4,
        events = [\<lparr>scheduledTime = 1, sequence = 1, action = 1\<rparr>,
                  \<lparr>scheduledTime = 2, sequence = 0, action = 0\<rparr>,
                  \<lparr>scheduledTime = 2, sequence = 2, action = 2\<rparr>,
                  \<lparr>scheduledTime = 5, sequence = 3, action = 3\<rparr>]\<rparr>"
    by (simp add: schedule_def newEventQueue_def before_def)
  have q2: "schedule_all ?nested newEventQueue =
      \<lparr>nowPointer = 0, nextSequence = 3,
        events = [\<lparr>scheduledTime = 1, sequence = 1, action = 1\<rparr>,
                  \<lparr>scheduledTime = 2, sequence = 0, action = 0\<rparr>,
                  \<lparr>scheduledTime = 2, sequence = 2, action = 2\<rparr>]\<rparr>"
    by (simp add: schedule_def newEventQueue_def before_def)
  have r1: "runUntil 4 (\<lambda>a t w. ([], w)) 2 (schedule_all ?plain newEventQueue, ()) []
   = (True,
      (\<lparr>nowPointer = 2, nextSequence = 4,
        events = [\<lparr>scheduledTime = 5, sequence = 3, action = 3\<rparr>]\<rparr>, ()),
      [\<lparr>scheduledTime = 1, sequence = 1, action = 1\<rparr>,
       \<lparr>scheduledTime = 2, sequence = 0, action = 0\<rparr>,
       \<lparr>scheduledTime = 2, sequence = 2, action = 2\<rparr>])"
    unfolding q1 by (simp add: runUntil.simps dispatch_def numeral_eq_Suc)
  have r2: "runUntil 5 (\<lambda>a t w. (if a = 1 then [(t + 1, 7), (0, 8)] else [], w)) 3
     (schedule_all ?nested newEventQueue, ()) []
   = (True,
      (\<lparr>nowPointer = 2, nextSequence = 4, events = []\<rparr>, ()),
      [\<lparr>scheduledTime = 1, sequence = 1, action = 1\<rparr>,
       \<lparr>scheduledTime = 2, sequence = 0, action = 0\<rparr>,
       \<lparr>scheduledTime = 2, sequence = 2, action = 2\<rparr>,
       \<lparr>scheduledTime = 2, sequence = 3, action = 7\<rparr>])"
    unfolding q2 by (simp add: runUntil.simps dispatch_def schedule_def before_def numeral_eq_Suc)
  show ?thesis
    using runUntil_dispatch_order [OF p1 r1] runUntil_dispatch_order [OF p2 r2] r1 r2
    by simp
qed


section \<open>NodeQueue: a full queue\<close>

lemma enqueue_all_full:
  "capacity q \<le> length (pending q) \<Longrightarrow>
     enqueue_all ps q =
       (replicate (length ps) (Inl QueueFullError), q\<lparr>droppedCount := droppedCount q + length ps\<rparr>)"
proof (induction ps arbitrary: q)
  case Nil
  then show ?case by simp
next
  case (Cons p ps)
  let ?q1 = "q\<lparr>droppedCount := droppedCount q + 1\<rparr>"
  have step: "enqueue p q = (Inl QueueFullError, ?q1)"
    using Cons.prems by (simp add: enqueue_def)
  have "capacity ?q1 \<le> length (pending ?q1)" using Cons.prems by simp
  from Cons.IH [OF this] show ?case by (simp add: step)
qed


text \<open>
  Claim C6. On a queue whose pending length equals its capacity, \<^verbatim>\<open>enqueue\<close> fails with
  \<open>QueueFullError\<close>, leaves the pending sequence as it is and adds exactly 1 to
  \<open>droppedCount\<close>, changing nothing else; so a sequence of calls on a full queue fails every
  time and adds the number of calls. On a queue whose pending length is below its capacity,
  \<^verbatim>\<open>enqueue\<close> returns true and appends the packet, changing nothing else.
\<close>

theorem enqueue_full_fails_and_counts:
  "(length (pending q) = capacity q \<longrightarrow>
      fst (enqueue p q) = Inl QueueFullError \<and>
      pending (snd (enqueue p q)) = pending q \<and>
      droppedCount (snd (enqueue p q)) = droppedCount q + 1 \<and>
      snd (enqueue p q) = q\<lparr>droppedCount := droppedCount q + 1\<rparr> \<and>
      fst (enqueue_all ps q) = replicate (length ps) (Inl QueueFullError) \<and>
      pending (snd (enqueue_all ps q)) = pending q \<and>
      droppedCount (snd (enqueue_all ps q)) = droppedCount q + length ps)
   \<and> (length (pending q) < capacity q \<longrightarrow>
      enqueue p q = (Inr True, q\<lparr>pending := pending q @ [p]\<rparr>))"
  by (simp add: enqueue_def enqueue_all_full)

theorem enqueue_full_fails_and_counts_witness:
  "enqueue \<lparr>packetId = 3, sizeBytes = 100, sourceNodeId = 0, destNodeId = 1,
             enqueueTime = 1, deliverTime = None\<rparr>
     \<lparr>nodeId = 0,
      pending = [\<lparr>packetId = 1, sizeBytes = 100, sourceNodeId = 0, destNodeId = 1,
                  enqueueTime = 1, deliverTime = None\<rparr>],
      capacity = 1, droppedCount = 0\<rparr>
   = (Inl QueueFullError,
      \<lparr>nodeId = 0,
       pending = [\<lparr>packetId = 1, sizeBytes = 100, sourceNodeId = 0, destNodeId = 1,
                   enqueueTime = 1, deliverTime = None\<rparr>],
       capacity = 1, droppedCount = 1\<rparr>)
   \<and> enqueue \<lparr>packetId = 1, sizeBytes = 100, sourceNodeId = 0, destNodeId = 1,
             enqueueTime = 1, deliverTime = None\<rparr>
     \<lparr>nodeId = 0, pending = [], capacity = 1, droppedCount = 0\<rparr>
   = (Inr True,
      \<lparr>nodeId = 0,
       pending = [\<lparr>packetId = 1, sizeBytes = 100, sourceNodeId = 0, destNodeId = 1,
                   enqueueTime = 1, deliverTime = None\<rparr>],
       capacity = 1, droppedCount = 0\<rparr>)"
  using enqueue_full_fails_and_counts
     [of "\<lparr>nodeId = 0,
           pending = [\<lparr>packetId = 1, sizeBytes = 100, sourceNodeId = 0, destNodeId = 1,
                       enqueueTime = 1, deliverTime = None\<rparr>],
           capacity = 1, droppedCount = 0\<rparr>"
         "\<lparr>packetId = 3, sizeBytes = 100, sourceNodeId = 0, destNodeId = 1,
             enqueueTime = 1, deliverTime = None\<rparr>" "[]"]
    enqueue_full_fails_and_counts
     [of "\<lparr>nodeId = 0, pending = [], capacity = 1, droppedCount = 0\<rparr>"
         "\<lparr>packetId = 1, sizeBytes = 100, sourceNodeId = 0, destNodeId = 1,
             enqueueTime = 1, deliverTime = None\<rparr>" "[]"]
  by (simp add: enqueue_def)


section \<open>Medium: transmission and arrival time\<close>

text \<open>
  Claim C1. For every positive bit rate the medium can be constructed, its transmission
  time for a packet of \<open>nbytes\<close> bytes is \<open>nbytes * 8 / bitRate\<close>, and an attempt on the new
  medium at a time \<open>t \<ge> 0\<close> succeeds with arrival time \<open>t\<close> plus the propagation delay plus
  the transmission time. With a bit rate of 6,000,000 bps and no propagation delay, a
  100-byte packet handed over at 1.0 s arrives at \<open>1.0 + 100 * 8 / 6000000\<close> s, which is within
  a microsecond of 1.000133 s.
\<close>

theorem attemptSend_arrival_time:
  assumes "0 < bitRate cfg"
  shows "\<exists>m. newMedium cfg = Inr m \<and>
           (\<forall>nbytes. transmissionTime m nbytes = real nbytes * 8 / bitRate cfg) \<and>
           (\<forall>node packet t. 0 \<le> t \<longrightarrow>
              fst (attemptSend m node packet t) =
                Success (t + propagationDelay cfg + real (sizeBytes packet) * 8 / bitRate cfg)) \<and>
           (bitRate cfg = 6000000 \<and> propagationDelay cfg = 0 \<longrightarrow>
              (\<forall>node packet. sizeBytes packet = 100 \<longrightarrow>
                 fst (attemptSend m node packet 1.0) = Success (1.0 + (100 * 8) / 6000000)) \<and>
              \<bar>(1.0 + (100 * 8) / 6000000) - 1.000133 :: real\<bar> < 0.000001)"
  using assms by (simp add: newMedium_def transmissionTime_def attemptSend_def)

theorem attemptSend_arrival_time_witness:
  "(0 :: real) < 6000000 \<and>
   newMedium \<lparr>propagationDelay = 0, bitRate = 6000000, collisionWindow = 0\<rparr>
     = Inr \<lparr>config = \<lparr>propagationDelay = 0, bitRate = 6000000, collisionWindow = 0\<rparr>, busyUntil = 0\<rparr> \<and>
   fst (attemptSend
         \<lparr>config = \<lparr>propagationDelay = 0, bitRate = 6000000, collisionWindow = 0\<rparr>, busyUntil = 0\<rparr>
         0 \<lparr>packetId = 1, sizeBytes = 100, sourceNodeId = 0, destNodeId = 1,
             enqueueTime = 1, deliverTime = None\<rparr> 1)
     = Success (7501 / 7500)"
  using attemptSend_arrival_time
     [of "\<lparr>propagationDelay = 0, bitRate = 6000000, collisionWindow = 0\<rparr>"]
  by (simp add: newMedium_def attemptSend_def transmissionTime_def)

end
